theory Spec2Isabelle
  imports Complex_Main "HOL-Library.Monad_Syntax" "HOL-Library.Multiset"
begin

section \<open>Clear-txt: the to-do list window of \<^verbatim>\<open>clear.cc\<close>\<close>

text \<open>
  The development embeds the class \<^verbatim>\<open>ClearApp\<close> of \<^verbatim>\<open>clear.cc\<close>: its item list, the
  flat-file persistence (\<^verbatim>\<open>escape_text\<close>, \<^verbatim>\<open>unescape_text\<close>, \<^verbatim>\<open>save_to_file\<close>,
  \<^verbatim>\<open>load_from_file\<close>), the list operations and the pointer and keyboard handler.

  Conventions of the embedding:
  \<^item> \<^verbatim>\<open>std::string\<close> is \<open>string\<close> (a list of 8-bit characters); \<^verbatim>\<open>std::vector\<close> is a list;
  \<^item> \<^verbatim>\<open>int\<close> members are \<open>int\<close>: pixel coordinates and indices stay far from the 32-bit
    range; the one product with a factor from outside, in the mouse wheel case, wraps
    around at 32 bits;
  \<^item> an unchecked \<^verbatim>\<open>items[i]\<close> with \<open>i\<close> out of range is undefined behaviour in the source;
    the handler returns \<open>None\<close> there;
  \<^item> what the program reads from its surroundings is part of the state record: the data
    file on disk, the faults of the disk, the FLTK timeout queue, the visibility and the
    value of the \<^verbatim>\<open>Fl_Input\<close> widget, and the size of the window;
  \<^item> drawing calls, \<^verbatim>\<open>redraw()\<close>, colours and the geometry of the input widget are not
    part of the state; \<^verbatim>\<open>Fl::check()\<close> and \<^verbatim>\<open>Fl::flush()\<close> inside \<^verbatim>\<open>start_editing\<close> are taken
    to find no pending event.
\<close>

subsection \<open>Items\<close>

record TodoItem =
  "text" :: string
  completed :: bool
  y_position :: int
  swipe_offset :: int

text \<open>The constructor \<^verbatim>\<open>TodoItem(const std::string &t)\<close>.\<close>

definition TodoItem :: "string \<Rightarrow> TodoItem" where
  "TodoItem t = \<lparr>text = t, completed = False, y_position = 0, swipe_offset = 0\<rparr>"

subsection \<open>Characters and strings of the file format\<close>

definition newline :: char where
  "newline = CHR 0x0A"

definition backslash :: char where
  "backslash = CHR 0x5C"

definition bar :: char where
  "bar = CHR ''|''"

text \<open>
  \<^verbatim>\<open>escape_text\<close>: the range-based loop over the characters of \<^verbatim>\<open>text\<close>, appending to
  \<^verbatim>\<open>result\<close>.
\<close>

fun escape_text_loop :: "string \<Rightarrow> string \<Rightarrow> string" where
  "escape_text_loop result [] = result"
| "escape_text_loop result (c # cs) =
     (if c = newline then escape_text_loop (result @ [backslash, CHR ''n'']) cs
      else if c = backslash then escape_text_loop (result @ [backslash, backslash]) cs
      else escape_text_loop (result @ [c]) cs)"

definition escape_text :: "string \<Rightarrow> string" where
  "escape_text t = escape_text_loop [] t"

text \<open>
  \<^verbatim>\<open>unescape_text\<close>: the loop over the index \<open>i\<close>, which steps over the second character of a
  recognised escape pair.
\<close>

function unescape_text_loop :: "string \<Rightarrow> nat \<Rightarrow> string \<Rightarrow> string" where
  "unescape_text_loop t i result =
     (if i < length t then
        (if t ! i = backslash \<and> i + 1 < length t then
           (if t ! (i + 1) = CHR ''n'' then unescape_text_loop t (i + 2) (result @ [newline])
            else if t ! (i + 1) = backslash then unescape_text_loop t (i + 2) (result @ [backslash])
            else unescape_text_loop t (i + 1) (result @ [t ! i]))
         else unescape_text_loop t (i + 1) (result @ [t ! i]))
      else result)"
  by pat_completeness auto
termination
  by (relation "measure (\<lambda>(t, i, result). length t - i)") auto

declare unescape_text_loop.simps [simp del]

definition unescape_text :: "string \<Rightarrow> string" where
  "unescape_text t = unescape_text_loop t 0 []"

text \<open>
  \<^verbatim>\<open>std::string::find(ch, pos)\<close>: the first index at or after \<open>pos\<close> that holds \<open>ch\<close>;
  \<open>None\<close> is \<^verbatim>\<open>npos\<close>. \<^verbatim>\<open>substr(pos, len)\<close> and \<^verbatim>\<open>substr(pos)\<close> are \<open>take len (drop pos s)\<close>
  and \<open>drop pos s\<close>; both are called with \<open>pos \<le> length s\<close> only.
\<close>

function str_find :: "string \<Rightarrow> char \<Rightarrow> nat \<Rightarrow> nat option" where
  "str_find s ch pos =
     (if pos < length s then (if s ! pos = ch then Some pos else str_find s ch (pos + 1))
      else None)"
  by pat_completeness auto
termination
  by (relation "measure (\<lambda>(s, ch, pos). length s - pos)") auto

declare str_find.simps [simp del]

definition substr :: "string \<Rightarrow> nat \<Rightarrow> nat \<Rightarrow> string" where
  "substr s pos len = take len (drop pos s)"

definition substr_from :: "string \<Rightarrow> nat \<Rightarrow> string" where
  "substr_from s pos = drop pos s"

subsection \<open>The surroundings: disk, input stream, timeouts\<close>

text \<open>
  An open \<^verbatim>\<open>std::ifstream\<close>: the bytes not yet read and what follows them, the end of the
  file or a device error (\<^verbatim>\<open>badbit\<close>).
\<close>

datatype stream_end = EndOfFile | DeviceError

record ifstream =
  unread :: string
  ending :: stream_end

text \<open>
  \<^verbatim>\<open>std::getline(file, line)\<close>. It extracts characters up to the next newline, which it
  discards. At the end of the file it delivers what it has extracted, and fails (with
  \<^verbatim>\<open>eofbit\<close> and \<^verbatim>\<open>failbit\<close>) when that is nothing. A device error makes it fail with
  \<^verbatim>\<open>badbit\<close>.
\<close>

datatype getline_result = Line string ifstream | Fail_eof | Fail_bad

definition getline :: "ifstream \<Rightarrow> getline_result" where
  "getline f =
     (case dropWhile (\<lambda>c. c \<noteq> newline) (unread f) of
        _ # rest \<Rightarrow> Line (takeWhile (\<lambda>c. c \<noteq> newline) (unread f)) (f\<lparr>unread := rest\<rparr>)
      | [] \<Rightarrow>
          (case ending f of
             DeviceError \<Rightarrow> Fail_bad
           | EndOfFile \<Rightarrow>
               (if unread f = [] then Fail_eof else Line (unread f) (f\<lparr>unread := []\<rparr>))))"

text \<open>
  What opening the file for writing and writing to it does: it works, the open fails,
  or the open works and the stream fails after that many bytes.
\<close>

datatype write_fault = WriteOk | OpenFails | WriteFails nat

text \<open>The three timeout callbacks of the class.\<close>

datatype timeout_cb = hide_error_cb | long_press_timeout_cb | click_timeout_cb

record ErrorDisplay =
  message :: string
  is_visible :: bool

subsection \<open>The application state\<close>

text \<open>
  The members of \<^verbatim>\<open>ClearApp\<close>, then the surroundings. \<^verbatim>\<open>item_height\<close> is set to 60 by the
  constructor and never assigned again, so it is a constant here. \<open>timeouts\<close> is the queue
  of \<^verbatim>\<open>Fl::add_timeout\<close>: the seconds left and the callback of each pending timeout.
  \<open>disk_file\<close> is the content of \<^verbatim>\<open>data_file\<close>, \<open>None\<close> when it cannot be opened for
  reading; \<open>disk_read_error\<close> is the number of bytes after which reading hits a device
  error, if it does.
\<close>

record ClearApp =
  items :: "TodoItem list"
  selected_index :: int
  drag_start_y :: int
  drag_start_x :: int
  is_dragging :: bool
  is_swiping :: bool
  is_pulling_down :: bool
  pull_down_offset :: int
  drag_offset :: int
  data_file :: string
  editing_index :: int
  editing_text :: string
  pending_click_index :: int
  can_reorder :: bool
  scroll_offset :: int
  error_display :: ErrorDisplay
  input_visible :: bool
  input_value :: string
  win_w :: int
  win_h :: int
  timeouts :: "(real \<times> timeout_cb) list"
  disk_file :: "string option"
  disk_write :: write_fault
  disk_read_error :: "nat option"

definition item_height :: int where
  "item_height = 60"

text \<open>
  \<^verbatim>\<open>Fl::remove_timeout(cb, this)\<close> removes every pending timeout of that callback;
  \<^verbatim>\<open>Fl::add_timeout(t, cb, this)\<close> adds one that is due in \<open>t\<close> seconds.
\<close>

definition Fl_remove_timeout :: "timeout_cb \<Rightarrow> ClearApp \<Rightarrow> ClearApp" where
  "Fl_remove_timeout cb s = s\<lparr>timeouts := filter (\<lambda>p. snd p \<noteq> cb) (timeouts s)\<rparr>"

definition Fl_add_timeout :: "real \<Rightarrow> timeout_cb \<Rightarrow> ClearApp \<Rightarrow> ClearApp" where
  "Fl_add_timeout t cb s = s\<lparr>timeouts := timeouts s @ [(t, cb)]\<rparr>"

subsection \<open>The error display\<close>

definition show_error :: "string \<Rightarrow> ClearApp \<Rightarrow> ClearApp" where
  "show_error msg s =
     (let s1 = Fl_remove_timeout hide_error_cb s;
          s2 = s1\<lparr>error_display := \<lparr>message = msg, is_visible = True\<rparr>\<rparr>
      in Fl_add_timeout 3.0 hide_error_cb s2)"

definition hide_error :: "ClearApp \<Rightarrow> ClearApp" where
  "hide_error s =
     Fl_remove_timeout hide_error_cb (s\<lparr>error_display := \<lparr>message = [], is_visible = False\<rparr>\<rparr>)"

subsection \<open>Saving and loading\<close>

text \<open>
  The loop of \<^verbatim>\<open>save_to_file\<close>: \<open>out\<close> is what has been written to the stream so far.
\<close>

fun save_loop :: "TodoItem list \<Rightarrow> string \<Rightarrow> string" where
  "save_loop [] out = out"
| "save_loop (item # rest) out =
     save_loop rest
       (out @ ''0|'' @ (if completed item then ''1'' else ''0'') @ ''|''
          @ escape_text (text item) @ [newline])"

definition save_to_file :: "ClearApp \<Rightarrow> ClearApp" where
  "save_to_file s =
     (case disk_write s of
        OpenFails \<Rightarrow> show_error (''Failed to save file: '' @ data_file s) s
      | WriteOk \<Rightarrow> s\<lparr>disk_file := Some (save_loop (items s) [])\<rparr>
      | WriteFails k \<Rightarrow>
          show_error (''Error saving file: '' @ data_file s)
            (s\<lparr>disk_file := Some (take k (save_loop (items s) []))\<rparr>))"

text \<open>
  \<^verbatim>\<open>std::ifstream file(data_file)\<close>: \<open>None\<close> when \<^verbatim>\<open>is_open()\<close> is false.
\<close>

definition open_ifstream :: "ClearApp \<Rightarrow> ifstream option" where
  "open_ifstream s =
     (case disk_file s of
        None \<Rightarrow> None
      | Some bytes \<Rightarrow>
          (case disk_read_error s of
             None \<Rightarrow> Some \<lparr>unread = bytes, ending = EndOfFile\<rparr>
           | Some k \<Rightarrow>
               (if k < length bytes then Some \<lparr>unread = take k bytes, ending = DeviceError\<rparr>
                else Some \<lparr>unread = bytes, ending = EndOfFile\<rparr>)))"

text \<open>
  The \<^verbatim>\<open>while (std::getline(file, line))\<close> loop of \<^verbatim>\<open>load_from_file\<close>. The result is the item
  list, \<^verbatim>\<open>loaded_any\<close>, and whether the loop ended on a device error, which is what
  \<^verbatim>\<open>file.fail() && !file.eof()\<close> tests afterwards.
\<close>

function load_loop :: "ifstream \<Rightarrow> TodoItem list \<Rightarrow> bool \<Rightarrow> TodoItem list \<times> bool \<times> bool" where
  "load_loop f its loaded_any =
     (case getline f of
        Fail_eof \<Rightarrow> (its, loaded_any, False)
      | Fail_bad \<Rightarrow> (its, loaded_any, True)
      | Line line f' \<Rightarrow>
          (if line = [] then load_loop f' its loaded_any
           else
             (case str_find line bar 0 of
                None \<Rightarrow> load_loop f' its loaded_any
              | Some pos1 \<Rightarrow>
                  (case str_find line bar (pos1 + 1) of
                     None \<Rightarrow> load_loop f' its loaded_any
                   | Some pos2 \<Rightarrow>
                       load_loop f'
                         (its @ [(TodoItem (unescape_text (substr_from line (pos2 + 1))))
                                   \<lparr>completed := (substr line (pos1 + 1) (pos2 - pos1 - 1) = ''1'')\<rparr>])
                         True))))"
  by pat_completeness auto
termination
proof -
  have shorter: "length (unread f') < length (unread f)" if g: "getline f = Line l f'" for f l f'
  proof (cases "dropWhile (\<lambda>c. c \<noteq> newline) (unread f)")
    case Nil
    with g show ?thesis
      by (auto simp: getline_def split: stream_end.splits if_splits)
  next
    case (Cons a rest)
    with g have "unread f' = rest" by (auto simp: getline_def)
    moreover have "length (dropWhile (\<lambda>c. c \<noteq> newline) (unread f)) \<le> length (unread f)"
      by (rule length_dropWhile_le)
    ultimately show ?thesis using Cons by simp
  qed
  show ?thesis
    by (relation "measure (\<lambda>(f, its, loaded_any). length (unread f))")
       (auto dest: shorter)
qed

declare load_loop.simps [simp del]

text \<open>\<^verbatim>\<open>load_from_file\<close> returns its \<^verbatim>\<open>bool\<close> next to the new state.\<close>

definition load_from_file :: "ClearApp \<Rightarrow> bool \<times> ClearApp" where
  "load_from_file s =
     (case open_ifstream s of
        None \<Rightarrow> (False, s)
      | Some f \<Rightarrow>
          (case load_loop f [] False of
             (its, loaded_any, read_failed) \<Rightarrow>
               (loaded_any,
                (if read_failed
                 then show_error (''Error reading file: '' @ data_file s) (s\<lparr>items := its\<rparr>)
                 else s\<lparr>items := its\<rparr>))))"

subsection \<open>List operations\<close>

text \<open>
  \<^verbatim>\<open>items.erase(items.begin() + i)\<close> and \<^verbatim>\<open>items.insert(items.begin() + i, x)\<close>; the source
  calls them with \<open>i < length xs\<close> and \<open>i \<le> length xs\<close>.
\<close>

definition vec_erase :: "'a list \<Rightarrow> nat \<Rightarrow> 'a list" where
  "vec_erase xs i = take i xs @ drop (Suc i) xs"

definition vec_insert :: "'a list \<Rightarrow> nat \<Rightarrow> 'a \<Rightarrow> 'a list" where
  "vec_insert xs i x = take i xs @ x # drop i xs"

definition add_sample_items :: "ClearApp \<Rightarrow> ClearApp" where
  "add_sample_items s =
     s\<lparr>items := items s @
        [TodoItem ''Welcome to Clear'', TodoItem ''Pull down to add new task'',
         TodoItem ''Click to edit task'', TodoItem ''Double-click to complete'',
         TodoItem ''Swipe right to delete'', TodoItem ''Long press to reorder'']\<rparr>"

text \<open>
  One of the two loops of \<^verbatim>\<open>get_sorted_indices\<close>: it appends the indices from \<open>i\<close> on whose
  item has the completion flag \<open>want\<close>.
\<close>

function indices_loop :: "TodoItem list \<Rightarrow> bool \<Rightarrow> nat \<Rightarrow> int list \<Rightarrow> int list" where
  "indices_loop its want i indices =
     (if i < length its then
        indices_loop its want (i + 1)
          (if completed (its ! i) = want then indices @ [int i] else indices)
      else indices)"
  by pat_completeness auto
termination
  by (relation "measure (\<lambda>(its, want, i, indices). length its - i)") auto

declare indices_loop.simps [simp del]

definition get_sorted_indices :: "ClearApp \<Rightarrow> int list" where
  "get_sorted_indices s =
     indices_loop (items s) True 0 (indices_loop (items s) False 0 [])"

definition get_item_at_y :: "ClearApp \<Rightarrow> int \<Rightarrow> int" where
  "get_item_at_y s y =
     (let adjusted_y = y + scroll_offset s in
      if adjusted_y < 0 then -1
      else
        (let visual_index = adjusted_y div item_height;
             sorted_indices = get_sorted_indices s
         in if 0 \<le> visual_index \<and> visual_index < int (length sorted_indices)
            then sorted_indices ! nat visual_index else -1))"

definition get_max_scroll_offset :: "ClearApp \<Rightarrow> int" where
  "get_max_scroll_offset s =
     (let total_height = int (length (items s)) * item_height;
          visible_height = win_h s - 40;
          max_scroll = total_height - visible_height
      in if 0 < max_scroll then max_scroll else 0)"

definition clamp_scroll_offset :: "ClearApp \<Rightarrow> ClearApp" where
  "clamp_scroll_offset s =
     (let max_scroll = get_max_scroll_offset s in
      if scroll_offset s < 0 then s\<lparr>scroll_offset := 0\<rparr>
      else if max_scroll < scroll_offset s then s\<lparr>scroll_offset := max_scroll\<rparr>
      else s)"

definition reorder_items :: "int \<Rightarrow> int \<Rightarrow> ClearApp \<Rightarrow> ClearApp" where
  "reorder_items from_index to_index s =
     (if from_index < 0 \<or> int (length (items s)) \<le> from_index \<or> to_index < 0
         \<or> int (length (items s)) \<le> to_index \<or> from_index = to_index
      then s
      else
        (let item = items s ! nat from_index;
             erased = vec_erase (items s) (nat from_index)
         in save_to_file (s\<lparr>items := vec_insert erased (nat to_index) item\<rparr>)))"

definition toggle_complete :: "int \<Rightarrow> ClearApp \<Rightarrow> ClearApp" where
  "toggle_complete index s =
     (if 0 \<le> index \<and> index < int (length (items s))
      then save_to_file
             (s\<lparr>items := (items s)[nat index :=
                  (items s ! nat index)\<lparr>completed := \<not> completed (items s ! nat index)\<rparr>]\<rparr>)
      else s)"

subsection \<open>Editing\<close>

text \<open>
  \<^verbatim>\<open>start_editing\<close> and \<^verbatim>\<open>finish_editing\<close> call each other. \<^verbatim>\<open>start_editing\<close> checks
  \<open>index\<close> against the list before it calls \<^verbatim>\<open>finish_editing\<close>, which may erase an item;
  the unchecked \<^verbatim>\<open>items[index]\<close> that follows is then out of range when \<open>index\<close> was the
  last position.
\<close>

function start_editing :: "int \<Rightarrow> ClearApp \<Rightarrow> ClearApp option"
  and finish_editing :: "ClearApp \<Rightarrow> ClearApp option" where
  "start_editing index s =
     (if index < 0 \<or> int (length (items s)) \<le> index then Some s
      else
        (case (if 0 \<le> editing_index s \<and> editing_index s \<noteq> index
               then finish_editing s else Some s) of
           None \<Rightarrow> None
         | Some s1 \<Rightarrow>
             (if index < int (length (items s1))
              then Some (s1\<lparr>editing_index := index,
                             editing_text := text (items s1 ! nat index),
                             input_value := text (items s1 ! nat index),
                             input_visible := True\<rparr>)
              else None)))"
| "finish_editing s =
     (if 0 \<le> editing_index s \<and> editing_index s < int (length (items s)) then
        (let s1 = (if input_visible s then s\<lparr>editing_text := input_value s\<rparr> else s);
             s2 = s1\<lparr>input_visible := False\<rparr>;
             old_editing_index = editing_index s2;
             old_editing_text = editing_text s2
         in if old_editing_text = [] then
              (let s3 = s2\<lparr>items := vec_erase (items s2) (nat old_editing_index)\<rparr> in
               if items s3 = [] then
                 start_editing 0
                   (s3\<lparr>items := items s3 @ [TodoItem []], editing_index := -1,
                        editing_text := []\<rparr>)
               else Some (s3\<lparr>editing_index := -1, editing_text := []\<rparr>))
            else
              Some (save_to_file
                (s2\<lparr>items := (items s2)[nat old_editing_index :=
                       (items s2 ! nat old_editing_index)\<lparr>text := old_editing_text\<rparr>],
                    editing_index := -1, editing_text := []\<rparr>)))
      else Some s)"
  by pat_completeness auto
termination
  by (relation "measure (\<lambda>x. case x of Inl (index, s) \<Rightarrow> (if 0 \<le> editing_index s then 2 else 0)
                                    | Inr s \<Rightarrow> 1)")
     auto

declare start_editing.simps [simp del] finish_editing.simps [simp del]

definition reset_swipe_offsets :: "ClearApp \<Rightarrow> ClearApp" where
  "reset_swipe_offsets s = s\<lparr>items := map (\<lambda>item. item\<lparr>swipe_offset := 0\<rparr>) (items s)\<rparr>"

definition delete_item :: "int \<Rightarrow> ClearApp \<Rightarrow> ClearApp option" where
  "delete_item index s =
     (if 0 \<le> index \<and> index < int (length (items s)) then
        (let s1 = s\<lparr>items := vec_erase (items s) (nat index)\<rparr>;
             s2 = (if int (length (items s1)) \<le> selected_index s1
                   then s1\<lparr>selected_index := -1\<rparr> else s1);
             s3 = clamp_scroll_offset (reset_swipe_offsets s2)
         in do {
              s4 \<leftarrow> (if items s3 = [] then
                       start_editing 0
                         (s3\<lparr>items := items s3 @ [TodoItem []], editing_index := 0,
                              editing_text := [], scroll_offset := 0\<rparr>)
                     else Some s3);
              Some (save_to_file s4)
            })
      else Some s)"

definition add_item :: "string \<Rightarrow> ClearApp \<Rightarrow> ClearApp option" where
  "add_item t s =
     do {
       s1 \<leftarrow> (if 0 \<le> editing_index s then finish_editing s else Some s);
       s2 \<leftarrow> start_editing 0
               (s1\<lparr>is_pulling_down := False, pull_down_offset := 0, scroll_offset := 0,
                    items := vec_insert (items s1) 0 (TodoItem t),
                    editing_index := 0, editing_text := t\<rparr>);
       Some (save_to_file s2)
     }"

subsection \<open>Events\<close>

datatype event = FL_PUSH | FL_DRAG | FL_RELEASE | FL_MOUSEWHEEL | FL_KEYBOARD | FL_other

datatype mouse_button = FL_LEFT_MOUSE | FL_MIDDLE_MOUSE | FL_RIGHT_MOUSE

datatype key = FL_Escape | FL_Delete | FL_Enter | FL_KP_Enter | FL_other_key

text \<open>
  What the handler reads from FLTK about the current event: \<^verbatim>\<open>Fl::event_x()\<close>,
  \<^verbatim>\<open>Fl::event_y()\<close>, \<^verbatim>\<open>Fl::event_button()\<close>, \<^verbatim>\<open>Fl::event_clicks()\<close>, \<^verbatim>\<open>Fl::event_dy()\<close>
  and \<^verbatim>\<open>Fl::event_key()\<close>.
\<close>

record Fl_event =
  event_x :: int
  event_y :: int
  event_button :: mouse_button
  event_clicks :: int
  event_dy :: int
  event_key :: key

text \<open>
  An unchecked \<^verbatim>\<open>items[index].swipe_offset = v\<close> and an unchecked read of
  \<^verbatim>\<open>items[index].swipe_offset\<close>.
\<close>

definition set_swipe_offset :: "int \<Rightarrow> int \<Rightarrow> ClearApp \<Rightarrow> ClearApp option" where
  "set_swipe_offset index v s =
     (if 0 \<le> index \<and> index < int (length (items s))
      then Some (s\<lparr>items := (items s)[nat index := (items s ! nat index)\<lparr>swipe_offset := v\<rparr>]\<rparr>)
      else None)"

definition get_swipe_offset :: "int \<Rightarrow> ClearApp \<Rightarrow> int option" where
  "get_swipe_offset index s =
     (if 0 \<le> index \<and> index < int (length (items s))
      then Some (swipe_offset (items s ! nat index)) else None)"

definition handle_push :: "Fl_event \<Rightarrow> ClearApp \<Rightarrow> ClearApp option" where
  "handle_push e s =
     (let mx = event_x e; my = event_y e; start_y = 0 in
      do {
        s1 \<leftarrow> (if 0 \<le> editing_index s \<and> event_button e = FL_LEFT_MOUSE then
                 (let clicked_index = get_item_at_y s my in
                  if clicked_index \<noteq> editing_index s then finish_editing s else Some s)
               else Some s);
        let s2 = reset_swipe_offsets s1;
            index = get_item_at_y s2 my;
            in_pull_zone = (my < start_y \<and> index < 0)
        in
          if 0 \<le> index then
            (if event_button e = FL_LEFT_MOUSE then
               Some (Fl_add_timeout 0.3 long_press_timeout_cb
                 (s2\<lparr>selected_index := index, is_dragging := False, is_swiping := False,
                      is_pulling_down := False, can_reorder := False, drag_start_y := my,
                      drag_start_x := mx,
                      drag_offset := my - (start_y + index * item_height),
                      pending_click_index := -1\<rparr>))
             else if event_button e = FL_RIGHT_MOUSE then
               do {
                 s3 \<leftarrow> (if 0 \<le> editing_index s2 then finish_editing s2 else Some s2);
                 delete_item index s3
               }
             else Some s2)
          else if in_pull_zone \<and> event_button e = FL_LEFT_MOUSE then
            Some (s2\<lparr>is_dragging := True, is_pulling_down := True, drag_start_y := my,
                     drag_start_x := mx, pull_down_offset := 0, selected_index := -1\<rparr>)
          else Some s2
      })"

text \<open>
  The tail of the \<^verbatim>\<open>FL_DRAG\<close> case, from the test \<^verbatim>\<open>!can_reorder && !is_swiping\<close> on. The
  branches before it either return or fall through to it.
\<close>

definition drag_tail :: "int \<Rightarrow> int \<Rightarrow> int \<Rightarrow> ClearApp \<Rightarrow> ClearApp option" where
  "drag_tail dx dy my s =
     (if \<not> can_reorder s \<and> \<not> is_swiping s then Some s
      else
        (let s1 = (if \<not> is_swiping s then s\<lparr>is_dragging := True\<rparr> else s);
             s2 = (if \<not> is_swiping s1 \<and> 10 < \<bar>dx\<bar> then s1\<lparr>is_swiping := True\<rparr> else s1)
         in if is_swiping s2 then set_swipe_offset (selected_index s2) dx s2
            else if can_reorder s2 \<and> 10 < \<bar>dy\<bar> then
              (let new_index = get_item_at_y s2 my in
               if 0 \<le> new_index \<and> new_index \<noteq> selected_index s2
               then Some ((reorder_items (selected_index s2) new_index s2)
                            \<lparr>selected_index := new_index\<rparr>)
               else Some s2)
            else Some s2))"

definition handle_drag :: "Fl_event \<Rightarrow> ClearApp \<Rightarrow> ClearApp option" where
  "handle_drag e s =
     (let mx = event_x e; my = event_y e;
          dx = mx - drag_start_x s; dy = my - drag_start_y s
      in
        if is_pulling_down s then
          (if 0 < dy then
             (let s1 = s\<lparr>pull_down_offset := dy\<rparr> in
              if real_of_int item_height * 1.5 < real_of_int (pull_down_offset s1)
              then Some (s1\<lparr>pull_down_offset := \<lfloor>real_of_int item_height * 1.5\<rfloor>\<rparr>)
              else Some s1)
           else if dy < -5 then Some (s\<lparr>pull_down_offset := 0\<rparr>)
           else Some s)
        else if 0 \<le> selected_index s then
          (if \<not> can_reorder s \<and> 20 < dy \<and> \<bar>dx\<bar> < 30 then
             drag_tail dx dy my
               ((Fl_remove_timeout long_press_timeout_cb s)
                  \<lparr>is_pulling_down := True, is_dragging := True, selected_index := -1,
                   pull_down_offset := dy\<rparr>)
           else if \<not> can_reorder s then
             (if 10 < \<bar>dx\<bar> \<and> \<bar>dy\<bar> < \<bar>dx\<bar> then
                do {
                  s1 \<leftarrow> set_swipe_offset (selected_index s) dx
                          (s\<lparr>is_swiping := True, is_dragging := True\<rparr>);
                  drag_tail dx dy my s1
                }
              else if 5 < \<bar>dx\<bar> \<or> 5 < \<bar>dy\<bar> then
                Some ((Fl_remove_timeout long_press_timeout_cb s)\<lparr>can_reorder := False\<rparr>)
              else Some s)
           else drag_tail dx dy my s)
        else Some s)"

text \<open>
  The block that handles a finished swipe. The source has it twice, word for word, in the
  two branches of \<^verbatim>\<open>FL_RELEASE\<close> that test \<^verbatim>\<open>is_swiping\<close>.
\<close>

definition release_swipe :: "ClearApp \<Rightarrow> ClearApp option" where
  "release_swipe s =
     do {
       swipe_offset \<leftarrow> get_swipe_offset (selected_index s) s;
       if real_of_int swipe_offset < real_of_int (- win_w s) * 0.3 then
         delete_item (selected_index s)
           (if editing_index s = selected_index s
            then s\<lparr>editing_index := -1, editing_text := []\<rparr> else s)
       else if real_of_int (win_w s) * 0.3 < real_of_int swipe_offset then
         (let s1 = toggle_complete (selected_index s) s in
          set_swipe_offset (selected_index s1) 0 s1)
       else set_swipe_offset (selected_index s) 0 s
     }"

definition handle_release :: "Fl_event \<Rightarrow> ClearApp \<Rightarrow> ClearApp option" where
  "handle_release e s0 =
     (let mx = event_x e; my = event_y e;
          s = Fl_remove_timeout long_press_timeout_cb s0
      in do {
        s1 \<leftarrow>
          (if is_pulling_down s then
             (if real_of_int item_height * 0.6 < real_of_int (pull_down_offset s)
              then add_item [] s
              else Some (s\<lparr>pull_down_offset := 0, is_pulling_down := False\<rparr>))
           else if is_dragging s \<and> 0 \<le> selected_index s \<and> can_reorder s then
             (if is_swiping s then release_swipe s else Some s)
           else if 0 \<le> selected_index s then
             (let dx = mx - drag_start_x s; dy = my - drag_start_y s in
              if is_swiping s then release_swipe s
              else if \<bar>dx\<bar> < 5 \<and> \<bar>dy\<bar> < 5 \<and> \<not> can_reorder s then
                (if 0 < event_clicks e then
                   (let s' = (if 0 \<le> pending_click_index s
                              then (Fl_remove_timeout click_timeout_cb s)
                                     \<lparr>pending_click_index := -1\<rparr>
                              else s)
                    in if editing_index s' < 0
                       then Some (toggle_complete (selected_index s') s') else Some s')
                 else
                   (let s' = (if 0 \<le> pending_click_index s
                              then Fl_remove_timeout click_timeout_cb s else s)
                    in Some (Fl_add_timeout 0.3 click_timeout_cb
                               (s'\<lparr>pending_click_index := selected_index s'\<rparr>))))
              else Some s)
           else Some s);
        Some (s1\<lparr>is_dragging := False, is_swiping := False, can_reorder := False\<rparr>)
      })"

text \<open>
  \<^verbatim>\<open>FL_MOUSEWHEEL\<close> multiplies the wheel movement, which comes from outside, by the item
  height: the product and the difference are taken as the 32-bit \<^verbatim>\<open>int\<close> arithmetic of the
  compiled program gives them, with wrap-around.
\<close>

definition int32 :: "int \<Rightarrow> int" where
  "int32 x = (x + 2 ^ 31) mod 2 ^ 32 - 2 ^ 31"

definition handle_mousewheel :: "Fl_event \<Rightarrow> ClearApp \<Rightarrow> ClearApp option" where
  "handle_mousewheel e s =
     (let dy = event_dy e in
      if dy \<noteq> 0
      then Some (clamp_scroll_offset
                  (s\<lparr>scroll_offset := int32 (scroll_offset s - int32 (dy * item_height))\<rparr>))
      else Some s)"

definition handle_keyboard :: "Fl_event \<Rightarrow> ClearApp \<Rightarrow> ClearApp option" where
  "handle_keyboard e s =
     (if 0 \<le> editing_index s \<and> input_visible s then
        (if event_key e = FL_Escape then
           (let current_text = input_value s;
                cancel = (\<lambda>s'. Some (save_to_file
                   (s'\<lparr>input_visible := False, editing_index := -1, editing_text := []\<rparr>)))
            in if current_text = [] \<and> editing_index s < int (length (items s)) then
                 (let s1 = s\<lparr>items := vec_erase (items s) (nat (editing_index s))\<rparr> in
                  if items s1 = [] then
                    start_editing 0
                      (s1\<lparr>items := items s1 @ [TodoItem []], editing_index := 0,
                           editing_text := []\<rparr>)
                  else cancel s1)
               else cancel s)
         else Some s)
      else if event_key e = FL_Delete \<and> 0 \<le> selected_index s then
        do {
          s1 \<leftarrow> delete_item (selected_index s) s;
          Some (s1\<lparr>selected_index := -1\<rparr>)
        }
      else Some s)"

text \<open>
  \<^verbatim>\<open>handle\<close>. Its \<^verbatim>\<open>int\<close> result only tells FLTK whether the event was used, and is left
  out. Where the source passes the event on to \<^verbatim>\<open>Fl_Window::handle\<close> the state stays as
  it is: what the input widget then does is a step of its own (\<open>Input\<close> below).
\<close>

definition handle :: "event \<Rightarrow> Fl_event \<Rightarrow> ClearApp \<Rightarrow> ClearApp option" where
  "handle ev e s =
     (case ev of
        FL_PUSH \<Rightarrow> handle_push e s
      | FL_DRAG \<Rightarrow> handle_drag e s
      | FL_RELEASE \<Rightarrow> handle_release e s
      | FL_MOUSEWHEEL \<Rightarrow> handle_mousewheel e s
      | FL_KEYBOARD \<Rightarrow> handle_keyboard e s
      | FL_other \<Rightarrow> Some s)"

subsection \<open>Callbacks\<close>

definition handle_single_click :: "int \<Rightarrow> ClearApp \<Rightarrow> ClearApp option" where
  "handle_single_click index s =
     (if 0 \<le> index \<and> index < int (length (items s)) \<and> pending_click_index s = index then
        do {
          s1 \<leftarrow> (if editing_index s \<noteq> index then start_editing index s else Some s);
          Some (s1\<lparr>pending_click_index := -1\<rparr>)
        }
      else Some s)"

definition enable_reorder :: "ClearApp \<Rightarrow> ClearApp" where
  "enable_reorder s =
     (if 0 \<le> selected_index s then s\<lparr>can_reorder := True, is_dragging := True\<rparr> else s)"

definition input_callback :: "key \<Rightarrow> ClearApp \<Rightarrow> ClearApp option" where
  "input_callback k s =
     (if \<not> input_visible s then Some s
      else if k = FL_Enter \<or> k = FL_KP_Enter then finish_editing s
      else Some s)"

text \<open>The body of each timeout callback.\<close>

definition run_timeout :: "timeout_cb \<Rightarrow> ClearApp \<Rightarrow> ClearApp option" where
  "run_timeout cb s =
     (case cb of
        hide_error_cb \<Rightarrow> Some (hide_error s)
      | long_press_timeout_cb \<Rightarrow> Some (enable_reorder s)
      | click_timeout_cb \<Rightarrow>
          (if 0 \<le> pending_click_index s
           then handle_single_click (pending_click_index s) s else Some s))"

subsection \<open>Drawing\<close>

text \<open>
  Of \<^verbatim>\<open>draw_item\<close> the state keeps the assignment \<^verbatim>\<open>item.y_position = y\<close>. A \<open>draw_call\<close>
  records the arguments of one call of \<^verbatim>\<open>draw_item\<close>: the index, \<open>y\<close>, \<^verbatim>\<open>is_editing\<close>,
  \<^verbatim>\<open>visual_position\<close> and \<^verbatim>\<open>total_visual_items\<close>.
\<close>

type_synonym draw_call = "int \<times> int \<times> bool \<times> int \<times> int"

definition draw_item :: "int \<Rightarrow> int \<Rightarrow> ClearApp \<Rightarrow> ClearApp" where
  "draw_item index y s =
     (if index < 0 \<or> int (length (items s)) \<le> index then s
      else s\<lparr>items := (items s)[nat index := (items s ! nat index)\<lparr>y_position := y\<rparr>]\<rparr>)"

text \<open>The loop of \<^verbatim>\<open>draw\<close> over \<^verbatim>\<open>visual_pos\<close>.\<close>

function draw_loop ::
  "int list \<Rightarrow> nat \<Rightarrow> int \<Rightarrow> ClearApp \<Rightarrow> draw_call list \<Rightarrow> ClearApp \<times> draw_call list" where
  "draw_loop sorted_indices visual_pos y s calls =
     (if visual_pos < length sorted_indices then
        (let actual_index = sorted_indices ! visual_pos;
             item_y0 = y - scroll_offset s;
             item_y = (if is_pulling_down s \<and> 0 < pull_down_offset s
                       then item_y0 + pull_down_offset s else item_y0)
         in if 0 < item_y + item_height \<and> item_y < win_h s then
              draw_loop sorted_indices (visual_pos + 1) (y + item_height)
                (draw_item actual_index item_y s)
                (calls @ [(actual_index, item_y, actual_index = editing_index s,
                           int visual_pos, int (length sorted_indices))])
            else draw_loop sorted_indices (visual_pos + 1) (y + item_height) s calls)
      else (s, calls))"
  by pat_completeness auto
termination
  by (relation "measure (\<lambda>(sorted_indices, visual_pos, y, s, calls).
                  length sorted_indices - visual_pos)") auto

declare draw_loop.simps [simp del]

text \<open>The search for the visual position of the edited item; \<open>-1\<close> when it is not found.\<close>

function find_visual_pos :: "int list \<Rightarrow> int \<Rightarrow> nat \<Rightarrow> int" where
  "find_visual_pos sorted_indices index i =
     (if i < length sorted_indices then
        (if sorted_indices ! i = index then int i
         else find_visual_pos sorted_indices index (i + 1))
      else -1)"
  by pat_completeness auto
termination
  by (relation "measure (\<lambda>(sorted_indices, index, i). length sorted_indices - i)") auto

declare find_visual_pos.simps [simp del]

definition edited_item_y :: "int \<Rightarrow> ClearApp \<Rightarrow> int" where
  "edited_item_y visual_pos s =
     (let item_y = (if 0 \<le> visual_pos then 0 + visual_pos * item_height - scroll_offset s
                    else 0 + editing_index s * item_height - scroll_offset s)
      in if is_pulling_down s \<and> 0 < pull_down_offset s then item_y + pull_down_offset s
         else item_y)"

definition draw :: "ClearApp \<Rightarrow> ClearApp \<times> draw_call list" where
  "draw s =
     (let sorted_indices = get_sorted_indices s in
      case draw_loop sorted_indices 0 0 s [] of
        (s1, calls) \<Rightarrow>
          (if 0 \<le> editing_index s1 \<and> editing_index s1 < int (length (items s1))
              \<and> input_visible s1 then
             (let visual_pos = find_visual_pos sorted_indices (editing_index s1) 0;
                  item_y = edited_item_y visual_pos s1
              in if item_y < 0 then
                   (clamp_scroll_offset (s1\<lparr>scroll_offset := scroll_offset s1 + item_y\<rparr>), calls)
                 else if win_h s1 - 40 < item_y + item_height then
                   (clamp_scroll_offset
                      (s1\<lparr>scroll_offset :=
                           scroll_offset s1 + ((item_y + item_height) - (win_h s1 - 40))\<rparr>),
                    calls)
                 else (s1, calls))
           else (s1, calls)))"

subsection \<open>Construction\<close>

text \<open>
  The constructor: first the member initialisers, then the body. \<open>W\<close> and \<open>H\<close> are its
  arguments; the other parameters are what it finds: the path that
  \<^verbatim>\<open>get_data_directory\<close> yields, the indeterminate initial values of \<^verbatim>\<open>drag_start_y\<close> and
  \<^verbatim>\<open>drag_start_x\<close>, which no initialiser sets, and the disk.
\<close>

definition ClearApp_init ::
  "int \<Rightarrow> int \<Rightarrow> string \<Rightarrow> int \<Rightarrow> int \<Rightarrow> string option \<Rightarrow> write_fault \<Rightarrow> nat option \<Rightarrow> ClearApp" where
  "ClearApp_init W H path y0 x0 file wfault rfault =
     \<lparr>items = [], selected_index = -1, drag_start_y = y0, drag_start_x = x0,
      is_dragging = False, is_swiping = False, is_pulling_down = False,
      pull_down_offset = 0, drag_offset = 0, data_file = path,
      editing_index = -1, editing_text = [], pending_click_index = -1,
      can_reorder = False, scroll_offset = 0,
      error_display = \<lparr>message = [], is_visible = False\<rparr>,
      input_visible = False, input_value = [], win_w = W, win_h = H,
      timeouts = [], disk_file = file, disk_write = wfault, disk_read_error = rfault\<rparr>"

definition ClearApp_new ::
  "int \<Rightarrow> int \<Rightarrow> string \<Rightarrow> int \<Rightarrow> int \<Rightarrow> string option \<Rightarrow> write_fault \<Rightarrow> nat option \<Rightarrow> ClearApp" where
  "ClearApp_new W H path y0 x0 file wfault rfault =
     (case load_from_file (ClearApp_init W H path y0 x0 file wfault rfault) of
        (loaded, s1) \<Rightarrow>
          (if \<not> loaded \<or> items s1 = [] then save_to_file (add_sample_items s1) else s1))"

subsection \<open>Runs of the event loop\<close>

text \<open>
  One turn of the FLTK event loop does one of these: it hands an event to \<^verbatim>\<open>handle\<close>; time
  passes; a timeout that is due fires; the input widget, while shown, takes a key, which
  leaves it with a new value, and calls \<^verbatim>\<open>input_callback\<close>; the window is drawn.
\<close>

datatype action =
    Handle event Fl_event
  | Elapse real
  | Timeout timeout_cb
  | Input string key
  | Draw

text \<open>The queue without its first timeout of callback \<open>cb\<close> that is due, if there is one.\<close>

fun fire :: "timeout_cb \<Rightarrow> (real \<times> timeout_cb) list \<Rightarrow> (real \<times> timeout_cb) list option" where
  "fire cb [] = None"
| "fire cb (p # q) =
     (if snd p = cb \<and> fst p \<le> 0 then Some q
      else (case fire cb q of None \<Rightarrow> None | Some q' \<Rightarrow> Some (p # q')))"

definition elapse :: "real \<Rightarrow> ClearApp \<Rightarrow> ClearApp" where
  "elapse d s = s\<lparr>timeouts := map (\<lambda>p. (fst p - d, snd p)) (timeouts s)\<rparr>"

text \<open>
  \<open>None\<close>: the action cannot happen in this state, or the handler runs into undefined
  behaviour.
\<close>

definition do_action :: "action \<Rightarrow> ClearApp \<Rightarrow> ClearApp option" where
  "do_action a s =
     (case a of
        Handle ev e \<Rightarrow> handle ev e s
      | Elapse d \<Rightarrow> (if 0 \<le> d then Some (elapse d s) else None)
      | Timeout cb \<Rightarrow>
          (case fire cb (timeouts s) of
             None \<Rightarrow> None
           | Some q \<Rightarrow> run_timeout cb (s\<lparr>timeouts := q\<rparr>))
      | Input v k \<Rightarrow> (if input_visible s then input_callback k (s\<lparr>input_value := v\<rparr>) else None)
      | Draw \<Rightarrow> Some (fst (draw s)))"

fun run :: "action list \<Rightarrow> ClearApp \<Rightarrow> ClearApp option" where
  "run [] s = Some s"
| "run (a # acts) s = (case do_action a s of None \<Rightarrow> None | Some s' \<Rightarrow> run acts s')"

text \<open>
  The states that the program reaches: from a constructed window, by a run of the event
  loop.
\<close>

definition reachable :: "ClearApp \<Rightarrow> bool" where
  "reachable s \<longleftrightarrow>
     (\<exists>W H path y0 x0 file wfault rfault as. run as (ClearApp_new W H path y0 x0 file wfault rfault) = Some s)"

text \<open>The four interaction modes, and how many of them are active.\<close>

definition active_modes :: "ClearApp \<Rightarrow> bool list" where
  "active_modes s =
     filter (\<lambda>b. b) [is_swiping s, can_reorder s, is_pulling_down s, 0 \<le> pending_click_index s]"

definition modes_exclusive :: "ClearApp \<Rightarrow> bool" where
  "modes_exclusive s \<longleftrightarrow> length (active_modes s) \<le> 1"

subsection \<open>The file format, as specified\<close>

text \<open>
  The format in the words of its description, for comparison with the loops above: how a
  character is escaped, the line of an item, the lines of a file, and the item that a line
  stands for.
\<close>

definition esc_char :: "char \<Rightarrow> string" where
  "esc_char c = (if c = newline then [backslash, CHR ''n'']
                 else if c = backslash then [backslash, backslash] else [c])"

definition item_line :: "TodoItem \<Rightarrow> string" where
  "item_line item = ''0|'' @ (if completed item then ''1'' else ''0'') @ ''|''
                      @ concat (map esc_char (text item))"

fun split_lines :: "string \<Rightarrow> string \<Rightarrow> string list" where
  "split_lines cur [] = (if cur = [] then [] else [cur])"
| "split_lines cur (c # cs) =
     (if c = newline then cur # split_lines [] cs else split_lines (cur @ [c]) cs)"

definition file_lines :: "string \<Rightarrow> string list" where
  "file_lines bytes = split_lines [] bytes"

definition after_bar :: "string \<Rightarrow> string" where
  "after_bar l = tl (dropWhile (\<lambda>c. c \<noteq> bar) l)"

definition before_bar :: "string \<Rightarrow> string" where
  "before_bar l = takeWhile (\<lambda>c. c \<noteq> bar) l"

definition line_ok :: "string \<Rightarrow> bool" where
  "line_ok l \<longleftrightarrow> l \<noteq> [] \<and> 2 \<le> count_list l bar"

text \<open>
  Unescaping, read from left to right: a backslash followed by \<open>n\<close> stands for a newline,
  a backslash followed by a backslash for one backslash, and every other character,
  also a backslash before another character or at the end, stands for itself.
\<close>

fun unescape_chars :: "string \<Rightarrow> string" where
  "unescape_chars [] = []"
| "unescape_chars [c] = [c]"
| "unescape_chars (c # d # cs) =
     (if c = backslash \<and> d = CHR ''n'' then newline # unescape_chars cs
      else if c = backslash \<and> d = backslash then backslash # unescape_chars cs
      else c # unescape_chars (d # cs))"

definition line_item :: "string \<Rightarrow> TodoItem" where
  "line_item l = \<lparr>text = unescape_chars (after_bar (after_bar l)),
                  completed = (before_bar (after_bar l) = ''1''),
                  y_position = 0, swipe_offset = 0\<rparr>"

subsection \<open>Display order and sample items, as specified\<close>

text \<open>
  The \<open>y\<close> coordinate of the row at visual position \<open>v\<close> and whether the window shows that
  row; the display order in the words of its description; the texts of the sample items.
\<close>

definition row_y :: "ClearApp \<Rightarrow> nat \<Rightarrow> int" where
  "row_y s v =
     int v * item_height - scroll_offset s
       + (if is_pulling_down s \<and> 0 < pull_down_offset s then pull_down_offset s else 0)"

definition row_visible :: "ClearApp \<Rightarrow> nat \<Rightarrow> bool" where
  "row_visible s v \<longleftrightarrow> 0 < row_y s v + item_height \<and> row_y s v < win_h s"

definition incomplete_then_completed :: "TodoItem list \<Rightarrow> int list" where
  "incomplete_then_completed its =
     map int (filter (\<lambda>i. \<not> completed (its ! i)) [0..<length its])
       @ map int (filter (\<lambda>i. completed (its ! i)) [0..<length its])"

definition sample_texts :: "string list" where
  "sample_texts =
     [''Welcome to Clear'', ''Pull down to add new task'', ''Click to edit task'',
      ''Double-click to complete'', ''Swipe right to delete'', ''Long press to reorder'']"

subsection \<open>States of editing and of the gesture\<close>

text \<open>
  \<open>editing_fresh_item\<close>: the list is one new, empty item, and that item is being edited.
  \<open>pending_cb\<close>: a timeout of the callback is pending. \<open>click_or_reorder\<close> is the invariant
  behind the exclusion of reorder-drag and pending click: while a click is pending,
  reordering is off and no long-press timeout is pending.
\<close>

definition editing_fresh_item :: "ClearApp \<Rightarrow> bool" where
  "editing_fresh_item s \<longleftrightarrow>
     items s = [TodoItem []] \<and> editing_index s = 0 \<and> input_visible s \<and> input_value s = []"

definition pending_cb :: "timeout_cb \<Rightarrow> ClearApp \<Rightarrow> bool" where
  "pending_cb cb s \<longleftrightarrow> cb \<in> snd ` set (timeouts s)"

definition reorder_view :: "ClearApp \<Rightarrow> bool \<times> int \<times> bool" where
  "reorder_view s = (can_reorder s, pending_click_index s, pending_cb long_press_timeout_cb s)"

definition click_or_reorder :: "ClearApp \<Rightarrow> bool" where
  "click_or_reorder s \<longleftrightarrow>
     (0 \<le> pending_click_index s \<longrightarrow> \<not> can_reorder s \<and> \<not> pending_cb long_press_timeout_cb s)"

subsection \<open>Example states and runs\<close>

text \<open>
  A window with three items, one of them completed and with a text that holds \<open>|\<close>, a
  backslash and a newline; the same window over a data file with lines that do not parse
  and a line with escapes, a newly initialised window over the file that saving the three
  items leaves, and the first window over disks that refuse the open or fail in the write. Then the window on first run
  (no data file, a disk that takes writes), mouse events with the left button, and runs of
  the event loop: a long press followed by a horizontal drag; a click; pulling down to add
  an item and then pressing on another item. Last, a window with one item under edit.
\<close>

definition example_items :: "TodoItem list" where
  "example_items =
     [TodoItem ''buy milk'',
      (TodoItem [CHR ''a'', bar, CHR ''b'', backslash, CHR ''n'', newline, CHR ''c''])
        \<lparr>completed := True\<rparr>,
      TodoItem ''call'']"

definition example_app :: ClearApp where
  "example_app =
     \<lparr>items = example_items, selected_index = -1, drag_start_y = 0, drag_start_x = 0,
      is_dragging = False, is_swiping = False, is_pulling_down = False, pull_down_offset = 0,
      drag_offset = 0, data_file = ''todos.txt'', editing_index = -1, editing_text = [],
      pending_click_index = -1, can_reorder = False, scroll_offset = 0,
      error_display = \<lparr>message = [], is_visible = False\<rparr>,
      input_visible = False, input_value = [], win_w = 600, win_h = 800, timeouts = [],
      disk_file = None, disk_write = WriteOk, disk_read_error = None\<rparr>"

definition example_bytes :: string where
  "example_bytes =
     ''0|1|done\<newline>\<newline>junk\<newline>7|0|a|b''
       @ [backslash, CHR ''n'', CHR ''c'', backslash, backslash, CHR ''d'', backslash, CHR ''q'',
          backslash]
       @ ''\<newline>x|1''"

definition example_disk :: ClearApp where
  "example_disk = example_app\<lparr>disk_file := Some example_bytes\<rparr>"

definition example_reloaded :: ClearApp where
  "example_reloaded =
     ClearApp_init 600 800 ''todos.txt'' 0 0 (disk_file (save_to_file example_app)) WriteOk None"

definition example_open_fails :: ClearApp where
  "example_open_fails = example_app\<lparr>disk_write := OpenFails\<rparr>"

definition example_write_fails :: ClearApp where
  "example_write_fails = example_app\<lparr>disk_write := WriteFails 5\<rparr>"

definition escape_key :: Fl_event where
  "escape_key = \<lparr>event_x = 0, event_y = 0, event_button = FL_LEFT_MOUSE, event_clicks = 0,
                  event_dy = 0, event_key = FL_Escape\<rparr>"

definition first_run :: ClearApp where
  "first_run = ClearApp_new 600 800 ''todos.txt'' 0 0 None WriteOk None"

definition left_at :: "int \<Rightarrow> int \<Rightarrow> Fl_event" where
  "left_at x y = \<lparr>event_x = x, event_y = y, event_button = FL_LEFT_MOUSE, event_clicks = 0,
                  event_dy = 0, event_key = FL_other_key\<rparr>"

definition long_press_then_swipe :: "action list" where
  "long_press_then_swipe =
     [Handle FL_PUSH (left_at 100 30), Elapse 0.3, Timeout long_press_timeout_cb,
      Handle FL_DRAG (left_at 120 30)]"

definition single_click :: "action list" where
  "single_click = [Handle FL_PUSH (left_at 100 30), Handle FL_RELEASE (left_at 100 30)]"

definition pull_add_then_click :: "action list" where
  "pull_add_then_click =
     [Handle FL_PUSH (left_at 100 30), Handle FL_DRAG (left_at 100 80),
      Handle FL_RELEASE (left_at 100 80), Handle FL_PUSH (left_at 100 90)]"

definition one_item :: ClearApp where
  "one_item = example_app\<lparr>items := [TodoItem ''only''], editing_index := 0,
                            input_visible := True, input_value := []\<rparr>"

section \<open>Properties\<close>

subsection \<open>Escaping\<close>

lemma chars_neq [simp]:
  "newline \<noteq> backslash" "backslash \<noteq> newline" "newline \<noteq> bar" "bar \<noteq> newline"
  "backslash \<noteq> bar" "bar \<noteq> backslash" "newline \<noteq> CHR ''n''" "CHR ''n'' \<noteq> newline"
  "backslash \<noteq> CHR ''n''" "CHR ''n'' \<noteq> backslash"
  by (simp_all add: newline_def backslash_def bar_def)

lemma escape_text_loop_acc: "escape_text_loop r t = r @ escape_text_loop [] t"
proof (induction t arbitrary: r)
  case Nil
  show ?case by simp
next
  case (Cons c cs)
  have a: "escape_text_loop (r @ x) cs = r @ escape_text_loop x cs" for x
    using Cons.IH [of "r @ x"] Cons.IH [of x] by simp
  show ?case
    using a [of "[backslash, CHR ''n'']"] a [of "[backslash, backslash]"] a [of "[c]"]
    by simp
qed

lemma escape_text_concat: "escape_text t = concat (map esc_char t)"
proof (induction t)
  case Nil
  show ?case by (simp add: escape_text_def)
next
  case (Cons c cs)
  have "escape_text (c # cs) = esc_char c @ escape_text cs"
    unfolding escape_text_def esc_char_def
    using escape_text_loop_acc [of "[backslash, CHR ''n'']" cs]
      escape_text_loop_acc [of "[backslash, backslash]" cs]
      escape_text_loop_acc [of "[c]" cs]
    by simp
  with Cons show ?case by simp
qed

lemma escape_text_no_newline: "newline \<notin> set (escape_text t)"
  by (induction t) (auto simp: escape_text_concat esc_char_def)

lemma unescape_loop_shift:
  "unescape_text_loop (c # t) (Suc i) r = unescape_text_loop t i r"
proof (induction t i r rule: unescape_text_loop.induct)
  case (1 t i r)
  show ?case
    by (subst unescape_text_loop.simps [of t i r],
        subst unescape_text_loop.simps [of "c # t" "Suc i" r])
       (use 1 in auto)
qed

lemma unescape_loop_acc:
  "unescape_text_loop t i r = r @ unescape_text_loop t i []"
proof (induction "length t - i" arbitrary: i r rule: less_induct)
  case less
  have step: "unescape_text_loop t j (r @ x) = r @ unescape_text_loop t j x"
    if "i < j" "i < length t" for j x
  proof -
    have "length t - j < length t - i" using that by arith
    then show ?thesis
      using less [of j "r @ x"] less [of j x] by simp
  qed
  show ?case
  proof (cases "i < length t")
    case False
    then show ?thesis by (simp add: unescape_text_loop.simps)
  next
    case True
    show ?thesis
      by (subst unescape_text_loop.simps [of t i r],
          subst unescape_text_loop.simps [of t i "[]"])
         (use True step [of "i + 2"] step [of "i + 1"] in simp)
  qed
qed

lemma unescape_plain:
  "c \<noteq> backslash \<Longrightarrow> unescape_text (c # t) = c # unescape_text t"
  unfolding unescape_text_def
  by (subst unescape_text_loop.simps)
     (simp add: unescape_loop_shift unescape_loop_acc [of _ _ "[c]"])

lemma unescape_pair_n:
  "unescape_text (backslash # CHR ''n'' # t) = newline # unescape_text t"
  unfolding unescape_text_def
  by (subst unescape_text_loop.simps)
     (simp add: unescape_loop_shift unescape_loop_acc [of _ _ "[newline]"])

lemma unescape_pair_backslash:
  "unescape_text (backslash # backslash # t) = backslash # unescape_text t"
  unfolding unescape_text_def
  by (subst unescape_text_loop.simps)
     (simp add: unescape_loop_shift unescape_loop_acc [of _ _ "[backslash]"])

lemma unescape_escape: "unescape_text (escape_text t) = t"
proof (induction t)
  case Nil
  show ?case
    by (simp add: escape_text_def unescape_text_def unescape_text_loop.simps)
next
  case (Cons c cs)
  then show ?case
    by (simp add: escape_text_concat esc_char_def unescape_plain unescape_pair_n
        unescape_pair_backslash)
qed


lemma unescape_text_Nil: "unescape_text [] = []"
  by (simp add: unescape_text_def unescape_text_loop.simps)

lemma unescape_last_backslash: "unescape_text [backslash] = [backslash]"
  unfolding unescape_text_def
  by (subst unescape_text_loop.simps) (simp add: unescape_text_loop.simps)

lemma unescape_backslash_other:
  "d \<noteq> CHR ''n'' \<Longrightarrow> d \<noteq> backslash \<Longrightarrow>
   unescape_text (backslash # d # t) = backslash # unescape_text (d # t)"
  unfolding unescape_text_def
  by (subst unescape_text_loop.simps)
     (simp add: unescape_loop_shift unescape_loop_acc [of _ _ "[backslash]"])

lemma unescape_text_chars: "unescape_text t = unescape_chars t"
proof (induction t rule: unescape_chars.induct)
  case 1
  show ?case by (simp add: unescape_text_Nil)
next
  case (2 c)
  show ?case
  proof (cases "c = backslash")
    case True
    then show ?thesis by (simp add: unescape_last_backslash)
  next
    case False
    then show ?thesis by (simp add: unescape_plain unescape_text_Nil)
  qed
next
  case (3 c d cs)
  show ?case
  proof (cases "c = backslash")
    case False
    with 3 show ?thesis by (simp add: unescape_plain)
  next
    case True
    show ?thesis
    proof (cases "d = CHR ''n''")
      case n: True
      with True 3 show ?thesis by (simp add: unescape_pair_n)
    next
      case not_n: False
      show ?thesis
      proof (cases "d = backslash")
        case b: True
        with True 3 show ?thesis by (simp add: unescape_pair_backslash)
      next
        case False
        with True not_n 3 show ?thesis by (simp add: unescape_backslash_other)
      qed
    qed
  qed
qed

subsection \<open>Saving and the lines of a file\<close>

lemma save_loop_acc: "save_loop its out = out @ save_loop its []"
proof (induction its arbitrary: out)
  case Nil
  show ?case by simp
next
  case (Cons item rest)
  show ?case
    using Cons.IH [of "out @ ''0|'' @ (if completed item then ''1'' else ''0'') @ ''|''
          @ escape_text (text item) @ [newline]"]
      Cons.IH [of "''0|'' @ (if completed item then ''1'' else ''0'') @ ''|''
          @ escape_text (text item) @ [newline]"]
    by simp
qed

lemma save_loop_concat:
  "save_loop its [] = concat (map (\<lambda>item. item_line item @ [newline]) its)"
proof (induction its)
  case Nil
  show ?case by simp
next
  case (Cons item rest)
  have "save_loop (item # rest) [] = (item_line item @ [newline]) @ save_loop rest []"
    using save_loop_acc [of rest "''0|'' @ (if completed item then ''1'' else ''0'') @ ''|''
          @ escape_text (text item) @ [newline]"]
    by (simp add: item_line_def escape_text_concat)
  with Cons show ?case by simp
qed

lemma split_lines_step:
  "split_lines cur bytes =
     (if newline \<in> set bytes
      then (cur @ takeWhile (\<lambda>c. c \<noteq> newline) bytes)
             # split_lines [] (tl (dropWhile (\<lambda>c. c \<noteq> newline) bytes))
      else if cur @ bytes = [] then [] else [cur @ bytes])"
  by (induction bytes arbitrary: cur) auto

lemma split_lines_line:
  "newline \<notin> set l \<Longrightarrow> split_lines cur (l @ newline # bytes) = (cur @ l) # split_lines [] bytes"
  by (induction l arbitrary: cur) auto

lemma file_lines_line:
  "newline \<notin> set l \<Longrightarrow> file_lines (l @ newline # bytes) = l # file_lines bytes"
  by (simp add: file_lines_def split_lines_line)

lemma item_line_no_newline: "newline \<notin> set (item_line item)"
  using escape_text_no_newline [of "text item"]
  by (auto simp: item_line_def escape_text_concat newline_def)

lemma file_lines_saved:
  "file_lines (concat (map (\<lambda>item. item_line item @ [newline]) its)) = map item_line its"
proof (induction its)
  case Nil
  show ?case by (simp add: file_lines_def)
next
  case (Cons item rest)
  then show ?case
    using file_lines_line [OF item_line_no_newline, of item]
    by simp
qed

subsection \<open>Parsing a line\<close>

lemma str_find_eq:
  "str_find s ch pos =
     (if ch \<in> set (drop pos s)
      then Some (pos + length (takeWhile (\<lambda>c. c \<noteq> ch) (drop pos s))) else None)"
proof (induction s ch pos rule: str_find.induct)
  case (1 s ch pos)
  show ?case
  proof (cases "pos < length s")
    case False
    then show ?thesis by (simp add: str_find.simps)
  next
    case True
    then have d: "drop pos s = s ! pos # drop (pos + 1) s"
      by (simp add: Cons_nth_drop_Suc)
    show ?thesis
      by (subst str_find.simps) (use True d 1 in auto)
  qed
qed

lemma count_pos_iff: "0 < count_list l ch \<longleftrightarrow> ch \<in> set l"
  by (induction l) auto

lemma count_ge2:
  "2 \<le> count_list l ch \<longleftrightarrow> ch \<in> set l \<and> ch \<in> set (tl (dropWhile (\<lambda>c. c \<noteq> ch) l))"
proof (induction l)
  case Nil
  show ?case by simp
next
  case (Cons a l)
  show ?case
  proof (cases "a = ch")
    case True
    have "2 \<le> count_list l ch + 1 \<longleftrightarrow> 0 < count_list l ch" by arith
    with True show ?thesis by (simp add: count_pos_iff)
  next
    case False
    with Cons show ?thesis by simp
  qed
qed

lemma line_ok_iff:
  "line_ok l \<longleftrightarrow> l \<noteq> [] \<and> bar \<in> set l \<and> bar \<in> set (after_bar l)"
  by (simp add: line_ok_def after_bar_def count_ge2)

lemma dropWhile_as_drop: "dropWhile P l = drop (length (takeWhile P l)) l"
  by (induction l) simp_all

lemma takeWhile_as_take: "takeWhile P l = take (length (takeWhile P l)) l"
  by (induction l) simp_all


lemma takeWhile_all: "\<forall>x\<in>set xs. P x \<Longrightarrow> xs = takeWhile P xs \<and> takeWhile P xs = xs"
  by (induction xs) simp_all

lemma dropWhile_none: "\<forall>x\<in>set xs. P x \<Longrightarrow> dropWhile P xs = []"
  by simp

lemma after_bar_drop:
  "after_bar l = drop (length (takeWhile (\<lambda>c. c \<noteq> bar) l) + 1) l"
proof -
  have "after_bar l = tl (drop (length (takeWhile (\<lambda>c. c \<noteq> bar) l)) l)"
    unfolding after_bar_def using dropWhile_as_drop [of "\<lambda>c. c \<noteq> bar" l] by simp
  then show ?thesis by (simp add: drop_Suc tl_drop)
qed

subsection \<open>The load loop\<close>

lemma getline_eof:
  "ending f = EndOfFile \<Longrightarrow>
   getline f =
     (if unread f = [] then Fail_eof
      else Line (takeWhile (\<lambda>c. c \<noteq> newline) (unread f))
             (f\<lparr>unread := tl (dropWhile (\<lambda>c. c \<noteq> newline) (unread f))\<rparr>))"
proof (cases "dropWhile (\<lambda>c. c \<noteq> newline) (unread f)")
  case Nil
  assume "ending f = EndOfFile"
  moreover from Nil have "takeWhile (\<lambda>c. c \<noteq> newline) (unread f) = unread f"
    by (metis takeWhile_dropWhile_id append_Nil2)
  ultimately show ?thesis unfolding getline_def Nil by (simp add: takeWhile_all)
next
  case (Cons a rest)
  then have "unread f \<noteq> []" by auto
  with Cons show ?thesis by (simp add: getline_def)
qed

lemma file_lines_Nil: "file_lines [] = []"
  by (simp add: file_lines_def)

lemma file_lines_step:
  "bytes \<noteq> [] \<Longrightarrow>
   file_lines bytes =
     takeWhile (\<lambda>c. c \<noteq> newline) bytes # file_lines (tl (dropWhile (\<lambda>c. c \<noteq> newline) bytes))"
proof (cases "newline \<in> set bytes")
  case True
  then show ?thesis
    unfolding file_lines_def by (subst split_lines_step) simp
next
  case False
  assume ne: "bytes \<noteq> []"
  from False have "takeWhile (\<lambda>c. c \<noteq> newline) bytes = bytes"
    and "dropWhile (\<lambda>c. c \<noteq> newline) bytes = []"
    by auto
  with False ne show ?thesis
    unfolding file_lines_def
    by (subst split_lines_step) (simp add: takeWhile_all dropWhile_none)
qed

lemma parse_fields:
  assumes "str_find line bar 0 = Some pos1" and "str_find line bar (pos1 + 1) = Some pos2"
  shows "substr line (pos1 + 1) (pos2 - pos1 - 1) = before_bar (after_bar line)"
    and "substr_from line (pos2 + 1) = after_bar (after_bar line)"
proof -
  from assms(1) have p1: "pos1 = length (takeWhile (\<lambda>c. c \<noteq> bar) line)"
    by (simp add: str_find_eq split: if_splits)
  then have ab: "drop (pos1 + 1) line = after_bar line"
    by (simp add: after_bar_drop)
  from assms(2) ab have p2: "pos2 = pos1 + 1 + length (takeWhile (\<lambda>c. c \<noteq> bar) (after_bar line))"
    by (simp add: str_find_eq split: if_splits)
  show "substr line (pos1 + 1) (pos2 - pos1 - 1) = before_bar (after_bar line)"
    unfolding substr_def ab before_bar_def p2
    using takeWhile_as_take [of "\<lambda>c. c \<noteq> bar" "after_bar line"] by simp
  have "drop (pos2 + 1) line
      = drop (length (takeWhile (\<lambda>c. c \<noteq> bar) (after_bar line)) + 1) (drop (pos1 + 1) line)"
    unfolding p2 by (simp add: add.commute add.left_commute)
  also have "\<dots> = after_bar (after_bar line)"
    unfolding ab by (rule after_bar_drop [symmetric])
  finally show "substr_from line (pos2 + 1) = after_bar (after_bar line)"
    by (simp add: substr_from_def)
qed

lemma find_first_bar:
  "str_find line bar 0 = None \<longleftrightarrow> bar \<notin> set line"
  by (simp add: str_find_eq)

lemma find_second_bar:
  "str_find line bar 0 = Some pos1 \<Longrightarrow>
   str_find line bar (pos1 + 1) = None \<longleftrightarrow> bar \<notin> set (after_bar line)"
  by (simp add: str_find_eq after_bar_drop split: if_splits)

lemma load_loop_eof:
  "ending f = EndOfFile \<Longrightarrow>
   load_loop f its loaded_any =
     (its @ map line_item (filter line_ok (file_lines (unread f))),
      loaded_any \<or> filter line_ok (file_lines (unread f)) \<noteq> [], False)"
proof (induction f its loaded_any rule: load_loop.induct)
  case (1 f its loaded_any)
  note eof = \<open>ending f = EndOfFile\<close>
  show ?case
  proof (cases "unread f = []")
    case True
    then show ?thesis
      by (subst load_loop.simps) (simp add: getline_eof [OF eof] file_lines_Nil)
  next
    case False
    define line where "line = takeWhile (\<lambda>c. c \<noteq> newline) (unread f)"
    define f' where "f' = f\<lparr>unread := tl (dropWhile (\<lambda>c. c \<noteq> newline) (unread f))\<rparr>"
    have g: "getline f = Line line f'"
      using False by (simp add: getline_eof [OF eof] line_def f'_def)
    have eof': "ending f' = EndOfFile" using eof by (simp add: f'_def)
    have fl: "file_lines (unread f) = line # file_lines (unread f')"
      using file_lines_step [OF False] by (simp add: line_def f'_def)
    show ?thesis
    proof (cases "line_ok line")
      case bad: False
      have "load_loop f its loaded_any = load_loop f' its loaded_any"
      proof (cases "line = []")
        case True
        then show ?thesis by (subst load_loop.simps) (simp add: g)
      next
        case ne: False
        show ?thesis
        proof (cases "str_find line bar 0")
          case None
          then show ?thesis by (subst load_loop.simps) (simp add: g)
        next
          case (Some pos1)
          with bad ne have "str_find line bar (pos1 + 1) = None"
            using find_second_bar [OF Some] find_first_bar [of line]
            by (auto simp: line_ok_iff)
          with Some show ?thesis by (subst load_loop.simps) (simp add: g)
        qed
      qed
      also have "\<dots> = (its @ map line_item (filter line_ok (file_lines (unread f'))),
          loaded_any \<or> filter line_ok (file_lines (unread f')) \<noteq> [], False)"
      proof (cases "line = []")
        case True
        then show ?thesis using "1.IH"(1) [OF g _ eof'] by simp
      next
        case ne: False
        show ?thesis
        proof (cases "str_find line bar 0")
          case None
          then show ?thesis using "1.IH"(2) [OF g ne _ eof'] by simp
        next
          case (Some pos1)
          with bad ne have "str_find line bar (pos1 + 1) = None"
            using find_second_bar [OF Some] find_first_bar [of line]
            by (auto simp: line_ok_iff)
          then show ?thesis using "1.IH"(3) [OF g ne Some _ eof'] by simp
        qed
      qed
      finally show ?thesis using bad by (simp add: fl)
    next
      case ok: True
      then have ne: "line \<noteq> []" by (simp add: line_ok_def)
      from ok obtain pos1 where p1: "str_find line bar 0 = Some pos1"
        using find_first_bar [of line] by (auto simp: line_ok_iff)
      from ok obtain pos2 where p2: "str_find line bar (pos1 + 1) = Some pos2"
        using find_second_bar [OF p1] by (auto simp: line_ok_iff)
      have item: "(TodoItem (unescape_text (substr_from line (pos2 + 1))))
                    \<lparr>completed := (substr line (pos1 + 1) (pos2 - pos1 - 1) = ''1'')\<rparr>
                  = line_item line"
        using parse_fields [OF p1 p2]
        by (simp add: TodoItem_def line_item_def unescape_text_chars)
      have "load_loop f its loaded_any = load_loop f' (its @ [line_item line]) True"
        by (subst load_loop.simps) (use g ne p1 p2 item in simp)
      also have "\<dots> = ((its @ [line_item line]) @ map line_item (filter line_ok (file_lines (unread f'))),
          True \<or> filter line_ok (file_lines (unread f')) \<noteq> [], False)"
        using "1.IH"(4) [OF g ne p1 p2 eof', unfolded item] by simp
      finally show ?thesis using ok by (simp add: fl)
    qed
  qed
qed

lemma item_line_parse:
  "line_ok (item_line item)"
  "line_item (item_line item) = \<lparr>text = text item, completed = completed item, y_position = 0, swipe_offset = 0\<rparr>"
proof -
  have ab1: "after_bar (item_line item)
      = (if completed item then ''1'' else ''0'') @ ''|'' @ concat (map esc_char (text item))"
    by (simp add: after_bar_def item_line_def bar_def)
  have ab2: "after_bar (after_bar (item_line item)) = concat (map esc_char (text item))"
    unfolding ab1 by (simp add: after_bar_def bar_def)
  have bb: "before_bar (after_bar (item_line item)) = (if completed item then ''1'' else ''0'')"
    unfolding ab1 by (simp add: before_bar_def bar_def)
  show "line_ok (item_line item)"
    unfolding line_ok_iff ab1 by (simp add: item_line_def bar_def)
  show "line_item (item_line item) = \<lparr>text = text item, completed = completed item, y_position = 0, swipe_offset = 0\<rparr>"
    unfolding line_item_def ab2 bb
    using unescape_escape [of "text item"]
    by (simp add: escape_text_concat unescape_text_chars)
qed

lemma load_from_file_eq:
  assumes "disk_file s = Some bytes" and "disk_read_error s = None"
  shows "load_from_file s =
           (filter line_ok (file_lines bytes) \<noteq> [],
            s\<lparr>items := map line_item (filter line_ok (file_lines bytes))\<rparr>)"
proof -
  have "open_ifstream s = Some \<lparr>unread = bytes, ending = EndOfFile\<rparr>"
    using assms by (simp add: open_ifstream_def)
  moreover have "load_loop \<lparr>unread = bytes, ending = EndOfFile\<rparr> [] False =
      (map line_item (filter line_ok (file_lines bytes)), filter line_ok (file_lines bytes) \<noteq> [], False)"
    using load_loop_eof [of "\<lparr>unread = bytes, ending = EndOfFile\<rparr>" "[]" False] by simp
  ultimately show ?thesis by (simp add: load_from_file_def)
qed

lemma save_to_file_eq:
  "disk_write s = WriteOk \<Longrightarrow>
   save_to_file s = s\<lparr>disk_file := Some (concat (map (\<lambda>item. item_line item @ [newline]) (items s)))\<rparr>"
  by (simp add: save_to_file_def save_loop_concat)

subsection \<open>Persistence\<close>

text \<open>
  C2. With a disk that takes the write, \<^verbatim>\<open>save_to_file\<close> leaves in the data file, for each
  item in list order, the characters \<open>0|\<close>, then \<open>1\<close> for a completed item and \<open>0\<close>
  otherwise, then \<open>|\<close>, then the text with every newline replaced by backslash \<open>n\<close> and
  every backslash doubled, then a newline; nothing else of the state changes. The lines
  of that file are the lines of the items, one for each item.
\<close>

theorem save_to_file_format:
  assumes "disk_write s = WriteOk"
  shows "save_to_file s =
           s\<lparr>disk_file := Some (concat (map (\<lambda>item. item_line item @ [newline]) (items s)))\<rparr>
       \<and> file_lines (concat (map (\<lambda>item. item_line item @ [newline]) (items s)))
           = map item_line (items s)"
  using assms by (simp add: save_to_file_eq file_lines_saved)

theorem save_to_file_format_witness:
  "disk_write example_app = WriteOk \<and>
   disk_file (save_to_file example_app) =
     Some (''0|0|buy milk'' @ [CHR 0x0A] @ ''0|1|a|b''
           @ [CHR 0x5C, CHR 0x5C, CHR ''n'', CHR 0x5C, CHR ''n'', CHR ''c'', CHR 0x0A]
           @ ''0|0|call'' @ [CHR 0x0A])"
proof -
  have h: "disk_write example_app = WriteOk" by (simp add: example_app_def)
  have "items example_app = example_items" by (simp add: example_app_def)
  then show ?thesis
    using h save_to_file_format [OF h]
    by (simp add: example_items_def TodoItem_def item_line_def esc_char_def
        bar_def backslash_def newline_def)
qed

text \<open>
  C3. When the data file can be read, \<^verbatim>\<open>load_from_file\<close> replaces the item list by one item
  for each line of the file that is not empty and holds at least two \<open>|\<close>, in the order
  of the lines. The item is completed exactly when the characters between the first and
  the second \<open>|\<close> are \<open>1\<close>; its text is the rest of the line after the second \<open>|\<close>,
  unescaped: backslash \<open>n\<close> read as a newline, two backslashes as one, every other
  character as itself. The result is true exactly when the new list is not empty.
\<close>

theorem load_from_file_parsing:
  assumes "disk_file s = Some bytes" and "disk_read_error s = None"
  shows "snd (load_from_file s) = s\<lparr>items := map line_item (filter line_ok (file_lines bytes))\<rparr>
       \<and> (fst (load_from_file s) \<longleftrightarrow> items (snd (load_from_file s)) \<noteq> [])"
  using load_from_file_eq [OF assms] by simp

theorem load_from_file_parsing_witness:
  "disk_file example_disk = Some example_bytes \<and> disk_read_error example_disk = None \<and>
   map (\<lambda>item. (text item, completed item)) (items (snd (load_from_file example_disk)))
     = [(''done'', True),
        ([CHR ''a'', CHR ''|'', CHR ''b'', CHR 0x0A, CHR ''c'', CHR 0x5C, CHR ''d'', CHR 0x5C,
          CHR ''q'', CHR 0x5C], False)] \<and>
   fst (load_from_file example_disk)"
proof -
  have h1: "disk_file example_disk = Some example_bytes"
    by (simp add: example_disk_def)
  have h2: "disk_read_error example_disk = None"
    by (simp add: example_disk_def example_app_def)
  have parsed: "map (\<lambda>l. (text (line_item l), completed (line_item l)))
                  (filter line_ok (file_lines example_bytes))
                = [(''done'', True),
                   ([CHR ''a'', CHR ''|'', CHR ''b'', CHR 0x0A, CHR ''c'', CHR 0x5C, CHR ''d'',
                     CHR 0x5C, CHR ''q'', CHR 0x5C], False)]"
    by code_simp
  have some: "filter line_ok (file_lines example_bytes) \<noteq> []"
    by code_simp
  show ?thesis
    using h1 h2 parsed some load_from_file_parsing [OF h1 h2]
    by (simp add: comp_def)
qed

text \<open>
  C1. Let \<^verbatim>\<open>save_to_file\<close> run on a disk that takes the write. Any window over the file that
  this leaves, whatever its own item list and other members are, then loads from the file
  the texts and the completion flags of the saved items, in the same order, whatever
  characters the texts hold, provided that the read meets no device error.
\<close>

theorem save_load_roundtrip:
  assumes "disk_write s = WriteOk" and "disk_file s' = disk_file (save_to_file s)"
    and "disk_read_error s' = None"
  shows "map (\<lambda>item. (text item, completed item)) (items (snd (load_from_file s')))
           = map (\<lambda>item. (text item, completed item)) (items s)"
proof -
  let ?bytes = "concat (map (\<lambda>item. item_line item @ [newline]) (items s))"
  have "save_to_file s = s\<lparr>disk_file := Some ?bytes\<rparr>"
    by (rule save_to_file_eq [OF assms(1)])
  with assms(2) have d: "disk_file s' = Some ?bytes"
    by simp
  have "load_from_file s' =
      (filter line_ok (file_lines ?bytes) \<noteq> [],
       s'\<lparr>items := map line_item (filter line_ok (file_lines ?bytes))\<rparr>)"
    by (rule load_from_file_eq [OF d assms(3)])
  moreover have "filter line_ok (map item_line (items s)) = map item_line (items s)"
    by (simp add: item_line_parse(1))
  ultimately show ?thesis
    by (simp add: file_lines_saved item_line_parse(2) comp_def)
qed

theorem save_load_roundtrip_witness:
  "disk_write example_app = WriteOk
   \<and> disk_file example_reloaded = disk_file (save_to_file example_app)
   \<and> disk_read_error example_reloaded = None
   \<and> items example_reloaded = []
   \<and> map (\<lambda>item. (text item, completed item)) (items (snd (load_from_file example_reloaded)))
     = [(''buy milk'', False),
        ([CHR ''a'', CHR ''|'', CHR ''b'', CHR 0x5C, CHR ''n'', CHR 0x0A, CHR ''c''], True),
        (''call'', False)]"
proof -
  have h1: "disk_write example_app = WriteOk" by (simp add: example_app_def)
  have h2: "disk_file example_reloaded = disk_file (save_to_file example_app)"
    by (simp add: example_reloaded_def ClearApp_init_def)
  have h3: "disk_read_error example_reloaded = None"
    by (simp add: example_reloaded_def ClearApp_init_def)
  have h4: "items example_reloaded = []"
    by (simp add: example_reloaded_def ClearApp_init_def)
  have "items example_app = example_items" by (simp add: example_app_def)
  then show ?thesis
    using h1 h2 h3 h4 save_load_roundtrip [OF h1 h2 h3]
    by (simp add: example_items_def TodoItem_def bar_def backslash_def newline_def)
qed

subsection \<open>Reordering\<close>

text \<open>
  \<^verbatim>\<open>show_error\<close> and \<^verbatim>\<open>save_to_file\<close> touch the error display, the timeouts and the
  file only.
\<close>

lemma show_error_frame [simp]:
  "items (show_error m s) = items s"
  "selected_index (show_error m s) = selected_index s"
  "editing_index (show_error m s) = editing_index s"
  "editing_text (show_error m s) = editing_text s"
  "input_visible (show_error m s) = input_visible s"
  "input_value (show_error m s) = input_value s"
  "pending_click_index (show_error m s) = pending_click_index s"
  "can_reorder (show_error m s) = can_reorder s"
  "is_swiping (show_error m s) = is_swiping s"
  "is_pulling_down (show_error m s) = is_pulling_down s"
  "is_dragging (show_error m s) = is_dragging s"
  "scroll_offset (show_error m s) = scroll_offset s"
  "win_h (show_error m s) = win_h s"
  "win_w (show_error m s) = win_w s"
  "disk_file (show_error m s) = disk_file s"
  "disk_write (show_error m s) = disk_write s"
  "disk_read_error (show_error m s) = disk_read_error s"
  by (simp_all add: show_error_def Fl_add_timeout_def Fl_remove_timeout_def)

lemma save_to_file_frame [simp]:
  "items (save_to_file s) = items s"
  "selected_index (save_to_file s) = selected_index s"
  "editing_index (save_to_file s) = editing_index s"
  "editing_text (save_to_file s) = editing_text s"
  "input_visible (save_to_file s) = input_visible s"
  "input_value (save_to_file s) = input_value s"
  "pending_click_index (save_to_file s) = pending_click_index s"
  "can_reorder (save_to_file s) = can_reorder s"
  "is_swiping (save_to_file s) = is_swiping s"
  "is_pulling_down (save_to_file s) = is_pulling_down s"
  "is_dragging (save_to_file s) = is_dragging s"
  "scroll_offset (save_to_file s) = scroll_offset s"
  "win_h (save_to_file s) = win_h s"
  "win_w (save_to_file s) = win_w s"
  "disk_write (save_to_file s) = disk_write s"
  "disk_read_error (save_to_file s) = disk_read_error s"
  by (simp_all add: save_to_file_def split: write_fault.splits)

lemma vec_erase_insert_mset:
  assumes "f < length xs" and "t < length xs"
  shows "mset (vec_insert (vec_erase xs f) t (xs ! f)) = mset xs"
proof -
  have "mset (take t (vec_erase xs f)) + mset (drop t (vec_erase xs f)) = mset (vec_erase xs f)"
    by (metis mset_append append_take_drop_id)
  then have "mset (vec_insert (vec_erase xs f) t (xs ! f)) = mset (vec_erase xs f) + {#xs ! f#}"
    by (simp add: vec_insert_def)
  also have "\<dots> = mset (take f xs @ xs ! f # drop (Suc f) xs)"
    by (simp add: vec_erase_def)
  also have "\<dots> = mset xs"
    using assms(1) by (simp add: id_take_nth_drop [symmetric])
  finally show ?thesis .
qed

lemma length_vec_erase: "i < length xs \<Longrightarrow> length (vec_erase xs i) = length xs - 1"
  by (simp add: vec_erase_def)

lemma vec_insert_nth: "t \<le> length ys \<Longrightarrow> vec_insert ys t x ! t = x"
  by (simp add: vec_insert_def nth_append)

lemma vec_erase_vec_insert: "t \<le> length ys \<Longrightarrow> vec_erase (vec_insert ys t x) t = ys"
  by (simp add: vec_erase_def vec_insert_def)

text \<open>
  C10. \<^verbatim>\<open>reorder_items\<close> leaves the whole state as it is when one of the two indices is out
  of range or when they are equal. Otherwise the item that was at \<open>from_index\<close> is at
  \<open>to_index\<close> afterwards, the other items keep their order, and the list has the same
  items, each as often as before, so the same length.
\<close>

theorem reorder_items_preserves:
  "(from_index < 0 \<or> int (length (items s)) \<le> from_index \<or> to_index < 0
      \<or> int (length (items s)) \<le> to_index \<or> from_index = to_index
    \<longrightarrow> reorder_items from_index to_index s = s)
   \<and> (0 \<le> from_index \<and> from_index < int (length (items s)) \<and> 0 \<le> to_index
      \<and> to_index < int (length (items s)) \<and> from_index \<noteq> to_index
    \<longrightarrow> items (reorder_items from_index to_index s) ! nat to_index = items s ! nat from_index
      \<and> take (nat to_index) (items (reorder_items from_index to_index s))
          @ drop (Suc (nat to_index)) (items (reorder_items from_index to_index s))
        = take (nat from_index) (items s) @ drop (Suc (nat from_index)) (items s)
      \<and> mset (items (reorder_items from_index to_index s)) = mset (items s)
      \<and> length (items (reorder_items from_index to_index s)) = length (items s))"
proof (intro conjI impI)
  assume "from_index < 0 \<or> int (length (items s)) \<le> from_index \<or> to_index < 0
      \<or> int (length (items s)) \<le> to_index \<or> from_index = to_index"
  then show "reorder_items from_index to_index s = s"
    by (auto simp: reorder_items_def)
next
  assume a: "0 \<le> from_index \<and> from_index < int (length (items s)) \<and> 0 \<le> to_index
      \<and> to_index < int (length (items s)) \<and> from_index \<noteq> to_index"
  define f t xs where "f = nat from_index" and "t = nat to_index" and "xs = items s"
  have f: "f < length xs" and t: "t < length xs"
    using a by (auto simp: f_def t_def xs_def)
  have its: "items (reorder_items from_index to_index s) = vec_insert (vec_erase xs f) t (xs ! f)"
    using a by (simp add: reorder_items_def Let_def f_def t_def xs_def)
  have t': "t \<le> length (vec_erase xs f)"
    using f t by (simp add: length_vec_erase)
  show "items (reorder_items from_index to_index s) ! nat to_index = items s ! nat from_index"
    unfolding its using vec_insert_nth [OF t'] by (simp add: f_def t_def xs_def)
  show "take (nat to_index) (items (reorder_items from_index to_index s))
          @ drop (Suc (nat to_index)) (items (reorder_items from_index to_index s))
        = take (nat from_index) (items s) @ drop (Suc (nat from_index)) (items s)"
    unfolding its using vec_erase_vec_insert [OF t', of "xs ! f"]
    by (simp add: vec_erase_def f_def t_def xs_def)
  show m: "mset (items (reorder_items from_index to_index s)) = mset (items s)"
    unfolding its using vec_erase_insert_mset [OF f t] by (simp add: xs_def)
  show "length (items (reorder_items from_index to_index s)) = length (items s)"
    using m by (rule mset_eq_length)
qed

theorem reorder_items_preserves_witness:
  "map text (items (reorder_items 0 1 example_app))
     = [[CHR ''a'', CHR ''|'', CHR ''b'', CHR 0x5C, CHR ''n'', CHR 0x0A, CHR ''c''], ''buy milk'', ''call'']
   \<and> mset (items (reorder_items 0 1 example_app)) = mset (items example_app)
   \<and> reorder_items 0 3 example_app = example_app"
proof -
  have its: "items example_app = example_items" by (simp add: example_app_def)
  have "map text (items (reorder_items 0 1 example_app))
     = [[CHR ''a'', CHR ''|'', CHR ''b'', CHR 0x5C, CHR ''n'', CHR 0x0A, CHR ''c''], ''buy milk'', ''call'']"
    by (simp add: reorder_items_def Let_def its example_items_def vec_erase_def vec_insert_def
        TodoItem_def bar_def backslash_def newline_def)
  then show ?thesis
    using reorder_items_preserves [of 0 example_app 1] reorder_items_preserves [of 0 example_app 3]
    by (simp add: its example_items_def)
qed

subsection \<open>Display order\<close>

lemma indices_loop_eq:
  "indices_loop its want i indices =
     indices @ map int (filter (\<lambda>j. completed (its ! j) = want) [i..<length its])"
proof (induction its want i indices rule: indices_loop.induct)
  case (1 its want i indices)
  show ?case
  proof (cases "i < length its")
    case False
    then show ?thesis by (subst indices_loop.simps) simp
  next
    case True
    then have u: "[i..<length its] = i # [i + 1..<length its]"
      by (simp add: upt_conv_Cons)
    show ?thesis
      by (subst indices_loop.simps) (use True 1 u in auto)
  qed
qed

lemma get_sorted_indices_eq:
  "get_sorted_indices s = incomplete_then_completed (items s)"
  by (simp add: get_sorted_indices_def incomplete_then_completed_def indices_loop_eq)

lemma incomplete_then_completed_mset:
  "mset (incomplete_then_completed its) = mset (map int [0..<length its])"
proof -
  have "mset (filter (\<lambda>i. \<not> completed (its ! i)) [0..<length its])
          + mset (filter (\<lambda>i. completed (its ! i)) [0..<length its])
        = mset [0..<length its]"
    by (simp add: union_commute del: mset_upt)
  then have "image_mset int (mset (filter (\<lambda>i. \<not> completed (its ! i)) [0..<length its])
          + mset (filter (\<lambda>i. completed (its ! i)) [0..<length its]))
        = image_mset int (mset [0..<length its])"
    by (rule arg_cong)
  then show ?thesis
    by (simp add: incomplete_then_completed_def del: mset_upt mset_filter)
qed

lemma length_incomplete_then_completed:
  "length (incomplete_then_completed its) = length its"
  using incomplete_then_completed_mset [of its, THEN arg_cong, of size] by simp

lemma draw_item_frame [simp]:
  "scroll_offset (draw_item i y s) = scroll_offset s"
  "is_pulling_down (draw_item i y s) = is_pulling_down s"
  "pull_down_offset (draw_item i y s) = pull_down_offset s"
  "win_h (draw_item i y s) = win_h s"
  "editing_index (draw_item i y s) = editing_index s"
  by (simp_all add: draw_item_def)

lemma row_draw_item [simp]:
  "row_y (draw_item i y s) = row_y s" "row_visible (draw_item i y s) = row_visible s"
  by (simp_all add: row_y_def row_visible_def fun_eq_iff)

lemma draw_loop_calls:
  "y = int visual_pos * item_height \<Longrightarrow>
   snd (draw_loop sorted_indices visual_pos y s calls) =
     calls @ map (\<lambda>v. (sorted_indices ! v, row_y s v, sorted_indices ! v = editing_index s,
                        int v, int (length sorted_indices)))
               (filter (row_visible s) [visual_pos..<length sorted_indices])"
proof (induction sorted_indices visual_pos y s calls rule: draw_loop.induct)
  case (1 sorted_indices visual_pos y s calls)
  note y = \<open>y = int visual_pos * item_height\<close>
  show ?case
  proof (cases "visual_pos < length sorted_indices")
    case False
    then show ?thesis by (subst draw_loop.simps) simp
  next
    case True
    then have u: "[visual_pos..<length sorted_indices]
                  = visual_pos # [visual_pos + 1..<length sorted_indices]"
      by (simp add: upt_conv_Cons)
    have y': "y + item_height = int (visual_pos + 1) * item_height"
      by (simp add: y algebra_simps)
    have ry: "(if is_pulling_down s \<and> 0 < pull_down_offset s
               then y - scroll_offset s + pull_down_offset s else y - scroll_offset s)
              = row_y s visual_pos"
      by (simp add: row_y_def y)
    show ?thesis
    proof (cases "row_visible s visual_pos")
      case vis: True
      then have c: "0 < row_y s visual_pos + item_height \<and> row_y s visual_pos < win_h s"
        by (simp add: row_visible_def)
      show ?thesis
        apply (subst draw_loop.simps)
        apply (simp only: True if_True Let_def ry c simp_thms)
        apply (subst "1.IH"(1) [OF True refl refl refl, unfolded ry, OF _ y'])
        using c vis by (simp_all add: u)
    next
      case inv: False
      then have c: "\<not> (0 < row_y s visual_pos + item_height \<and> row_y s visual_pos < win_h s)"
        by (simp add: row_visible_def)
      show ?thesis
        apply (subst draw_loop.simps)
        apply (simp only: True if_True Let_def ry c if_False)
        apply (subst "1.IH"(2) [OF True refl refl refl, unfolded ry, OF _ y'])
        using c inv by (simp_all add: u)
    qed
  qed
qed

text \<open>
  C5. \<^verbatim>\<open>get_sorted_indices\<close> lists the indices of the items that are not completed, in
  stored order, and then those of the completed items, in stored order; it is a
  permutation of \<open>0, \<dots>, n - 1\<close>. \<^verbatim>\<open>draw\<close> calls \<^verbatim>\<open>draw_item\<close> for the rows that are
  visible, from the top down, and row \<open>v\<close> shows the item with the \<open>v\<close>-th of these indices.
  \<^verbatim>\<open>toggle_complete\<close> changes the flag of the item at \<open>index\<close> and leaves every item at its
  position in the list.
\<close>

theorem sorted_display_order:
  "get_sorted_indices s = incomplete_then_completed (items s)
   \<and> mset (get_sorted_indices s) = mset (map int [0..<length (items s)])
   \<and> snd (draw s) =
       map (\<lambda>v. (get_sorted_indices s ! v, row_y s v, get_sorted_indices s ! v = editing_index s,
                  int v, int (length (items s))))
         (filter (row_visible s) [0..<length (items s)])
   \<and> items (toggle_complete index s) =
       (if 0 \<le> index \<and> index < int (length (items s))
        then (items s)[nat index :=
               (items s ! nat index)\<lparr>completed := \<not> completed (items s ! nat index)\<rparr>]
        else items s)
   \<and> map text (items (toggle_complete index s)) = map text (items s)"
proof (intro conjI)
  show "get_sorted_indices s = incomplete_then_completed (items s)"
    by (rule get_sorted_indices_eq)
  show "mset (get_sorted_indices s) = mset (map int [0..<length (items s)])"
    unfolding get_sorted_indices_eq by (rule incomplete_then_completed_mset)
  have len: "length (get_sorted_indices s) = length (items s)"
    unfolding get_sorted_indices_eq by (rule length_incomplete_then_completed)
  have "snd (draw s) = snd (draw_loop (get_sorted_indices s) 0 0 s [])"
    by (simp add: draw_def Let_def split: prod.splits)
  also have "\<dots> = map (\<lambda>v. (get_sorted_indices s ! v, row_y s v,
                           get_sorted_indices s ! v = editing_index s,
                           int v, int (length (get_sorted_indices s))))
                    (filter (row_visible s) [0..<length (get_sorted_indices s)])"
    using draw_loop_calls [of 0 0 "get_sorted_indices s" s "[]"] by simp
  finally show "snd (draw s) =
       map (\<lambda>v. (get_sorted_indices s ! v, row_y s v, get_sorted_indices s ! v = editing_index s,
                  int v, int (length (items s))))
         (filter (row_visible s) [0..<length (items s)])"
    by (simp add: len)
  show t: "items (toggle_complete index s) =
       (if 0 \<le> index \<and> index < int (length (items s))
        then (items s)[nat index :=
               (items s ! nat index)\<lparr>completed := \<not> completed (items s ! nat index)\<rparr>]
        else items s)"
    by (simp add: toggle_complete_def)
  show "map text (items (toggle_complete index s)) = map text (items s)"
    unfolding t by (auto intro!: nth_equalityI simp: nth_list_update)
qed

theorem sorted_display_order_witness:
  "get_sorted_indices example_app = [0, 2, 1]
   \<and> map fst (snd (draw example_app)) = [0, 2, 1]
   \<and> map (\<lambda>c. fst (snd c)) (snd (draw example_app)) = [0, 60, 120]
   \<and> map completed (items (toggle_complete 0 example_app)) = [True, True, False]"
proof -
  have e1: "incomplete_then_completed (items example_app) = [0, 2, 1]"
    by code_simp
  have e2: "filter (row_visible example_app) [0..<length (items example_app)] = [0, 1, 2]"
    by code_simp
  have e3: "map (row_y example_app) [0, 1, 2] = [0, 60, 120]"
    by code_simp
  have e4: "map completed (items example_app) = [False, True, False]"
    by code_simp
  have e5: "length (items example_app) = 3"
    by code_simp
  from sorted_display_order [of example_app 0]
  have a: "get_sorted_indices example_app = [0, 2, 1]"
    and b: "snd (draw example_app) =
       map (\<lambda>v. (get_sorted_indices example_app ! v, row_y example_app v,
                  get_sorted_indices example_app ! v = editing_index example_app,
                  int v, int (length (items example_app))))
         (filter (row_visible example_app) [0..<length (items example_app)])"
    and c: "items (toggle_complete 0 example_app) =
       (items example_app)[0 :=
               (items example_app ! 0)\<lparr>completed := \<not> completed (items example_app ! 0)\<rparr>]"
    by (simp_all add: e1 e5)
  have "map completed (items (toggle_complete 0 example_app))
        = (map completed (items example_app))[0 := \<not> completed (items example_app ! 0)]"
    unfolding c by (simp add: map_update)
  also have "\<dots> = [True, True, False]"
    using e4 e5 by (cases "items example_app") auto
  finally show ?thesis
    using a e3 unfolding b e2 by simp
qed

subsection \<open>First run\<close>

lemma load_missing_file: "disk_file s = None \<Longrightarrow> load_from_file s = (False, s)"
  by (simp add: load_from_file_def open_ifstream_def)

lemma ClearApp_new_missing:
  "ClearApp_new W H path y0 x0 None wfault rfault =
     save_to_file (add_sample_items (ClearApp_init W H path y0 x0 None wfault rfault))"
proof -
  have "disk_file (ClearApp_init W H path y0 x0 None wfault rfault) = None"
    by (simp add: ClearApp_init_def)
  then show ?thesis
    by (simp add: ClearApp_new_def load_missing_file)
qed

lemma sample_items: 
  "items (add_sample_items (ClearApp_init W H path y0 x0 file wfault rfault)) = map TodoItem sample_texts"
  by (simp add: add_sample_items_def ClearApp_init_def sample_texts_def)

text \<open>
  C6. When the data file cannot be opened for reading, \<^verbatim>\<open>load_from_file\<close> returns false and
  leaves the whole state, so the item list and the error display, as it was. The
  constructor then puts the six sample items into the list and calls \<^verbatim>\<open>save_to_file\<close>;
  on a disk that takes the write the file then holds their six lines and no error is
  shown.
\<close>

theorem missing_file_first_run:
  "(disk_file s = None \<longrightarrow> load_from_file s = (False, s))
   \<and> ClearApp_new W H path y0 x0 None wfault rfault =
       save_to_file (add_sample_items (ClearApp_init W H path y0 x0 None wfault rfault))
   \<and> items (ClearApp_new W H path y0 x0 None wfault rfault) = map TodoItem sample_texts
   \<and> (wfault = WriteOk \<longrightarrow>
        disk_file (ClearApp_new W H path y0 x0 None wfault rfault) =
          Some (concat (map (\<lambda>item. item_line item @ [newline]) (map TodoItem sample_texts)))
        \<and> \<not> is_visible (error_display (ClearApp_new W H path y0 x0 None wfault rfault)))"
proof (intro conjI impI)
  assume "disk_file s = None"
  then show "load_from_file s = (False, s)" by (rule load_missing_file)
next
  show "ClearApp_new W H path y0 x0 None wfault rfault =
       save_to_file (add_sample_items (ClearApp_init W H path y0 x0 None wfault rfault))"
    by (rule ClearApp_new_missing)
  show "items (ClearApp_new W H path y0 x0 None wfault rfault) = map TodoItem sample_texts"
    unfolding ClearApp_new_missing by (simp add: sample_items)
next
  assume w: "wfault = WriteOk"
  let ?s = "add_sample_items (ClearApp_init W H path y0 x0 None wfault rfault)"
  have dw: "disk_write ?s = WriteOk"
    using w by (simp add: add_sample_items_def ClearApp_init_def)
  show "disk_file (ClearApp_new W H path y0 x0 None wfault rfault) =
          Some (concat (map (\<lambda>item. item_line item @ [newline]) (map TodoItem sample_texts)))"
    unfolding ClearApp_new_missing save_to_file_eq [OF dw] by (simp add: sample_items)
  show "\<not> is_visible (error_display (ClearApp_new W H path y0 x0 None wfault rfault))"
    unfolding ClearApp_new_missing save_to_file_eq [OF dw]
    by (simp add: add_sample_items_def ClearApp_init_def)
qed

theorem missing_file_first_run_witness:
  "disk_file example_app = None \<and> load_from_file example_app = (False, example_app)
   \<and> disk_file (ClearApp_new 600 800 ''todos.txt'' 0 0 None WriteOk None) =
       Some ''0|0|Welcome to Clear\<newline>0|0|Pull down to add new task\<newline>0|0|Click to edit task\<newline>0|0|Double-click to complete\<newline>0|0|Swipe right to delete\<newline>0|0|Long press to reorder\<newline>''"
proof -
  have h: "disk_file example_app = None" by (simp add: example_app_def)
  have e: "concat (map (\<lambda>item. item_line item @ [newline]) (map TodoItem sample_texts))
     = ''0|0|Welcome to Clear\<newline>0|0|Pull down to add new task\<newline>0|0|Click to edit task\<newline>0|0|Double-click to complete\<newline>0|0|Swipe right to delete\<newline>0|0|Long press to reorder\<newline>''"
    by code_simp
  note t = missing_file_first_run [of example_app 600 800 "''todos.txt''" 0 0 WriteOk None]
  from t h have l: "load_from_file example_app = (False, example_app)"
    by blast
  from t have d: "disk_file (ClearApp_new 600 800 ''todos.txt'' 0 0 None WriteOk None) =
      Some (concat (map (\<lambda>item. item_line item @ [newline]) (map TodoItem sample_texts)))"
    by blast
  show ?thesis
    using h l d e by simp
qed

subsection \<open>The error display\<close>

lemma fire_not_due:
  "\<forall>p\<in>set q. snd p = cb \<longrightarrow> 0 < fst p \<Longrightarrow> fire cb q = None"
  by (induction q) auto

lemma fire_due:
  "(t, cb) \<in> set q \<Longrightarrow> t \<le> 0 \<Longrightarrow> fire cb q \<noteq> None"
  by (induction q) (auto split: option.splits)

lemma show_error_display:
  "error_display (show_error m s) = \<lparr>message = m, is_visible = True\<rparr>"
  by (simp add: show_error_def Fl_add_timeout_def Fl_remove_timeout_def)

lemma show_error_timeouts:
  "timeouts (show_error m s) = filter (\<lambda>p. snd p \<noteq> hide_error_cb) (timeouts s) @ [(3, hide_error_cb)]"
  by (simp add: show_error_def Fl_add_timeout_def Fl_remove_timeout_def)

lemma hide_error_effect:
  "error_display (hide_error s) = \<lparr>message = [], is_visible = False\<rparr>"
  "timeouts (hide_error s) = filter (\<lambda>p. snd p \<noteq> hide_error_cb) (timeouts s)"
  by (simp_all add: hide_error_def Fl_remove_timeout_def)

lemma timeouts_elapse: "timeouts (elapse d s) = map (\<lambda>p. (fst p - d, snd p)) (timeouts s)"
  by (simp add: elapse_def)

text \<open>
  C7. \<^verbatim>\<open>show_error\<close> makes the message visible and leaves exactly one pending
  \<^verbatim>\<open>hide_error_cb\<close> timeout, due in 3 seconds. \<^verbatim>\<open>save_to_file\<close> calls it when the file
  cannot be opened for writing and when the write fails. Before 3 seconds have passed the
  timeout does not fire, and a second \<^verbatim>\<open>show_error\<close> in that time shows the new message with
  one timeout, again due in 3 seconds. When 3 seconds have passed the timeout fires, and
  after it the message is hidden and empty and no such timeout is pending.
\<close>

theorem show_error_transient:
  "error_display (show_error m s) = \<lparr>message = m, is_visible = True\<rparr>
   \<and> filter (\<lambda>p. snd p = hide_error_cb) (timeouts (show_error m s)) = [(3, hide_error_cb)]
   \<and> (disk_write s = OpenFails \<longrightarrow>
        save_to_file s = show_error (''Failed to save file: '' @ data_file s) s)
   \<and> (disk_write s = WriteFails k \<longrightarrow>
        save_to_file s =
          show_error (''Error saving file: '' @ data_file s)
            (s\<lparr>disk_file := Some (take k (save_loop (items s) []))\<rparr>))
   \<and> (0 \<le> d \<and> d < 3 \<longrightarrow>
        do_action (Timeout hide_error_cb) (elapse d (show_error m s)) = None
        \<and> error_display (show_error m' (elapse d (show_error m s)))
            = \<lparr>message = m', is_visible = True\<rparr>
        \<and> filter (\<lambda>p. snd p = hide_error_cb) (timeouts (show_error m' (elapse d (show_error m s))))
            = [(3, hide_error_cb)])
   \<and> (case do_action (Timeout hide_error_cb) (elapse 3 (show_error m s)) of
         None \<Rightarrow> False
       | Some s' \<Rightarrow>
           error_display s' = \<lparr>message = [], is_visible = False\<rparr>
           \<and> filter (\<lambda>p. snd p = hide_error_cb) (timeouts s') = [])"
proof (intro conjI impI)
  show "error_display (show_error m s) = \<lparr>message = m, is_visible = True\<rparr>"
    by (rule show_error_display)
  show one: "filter (\<lambda>p. snd p = hide_error_cb) (timeouts (show_error m s)) = [(3, hide_error_cb)]"
    for m s
    by (simp add: show_error_timeouts)
  show "save_to_file s = show_error (''Failed to save file: '' @ data_file s) s"
    if "disk_write s = OpenFails"
    using that by (simp add: save_to_file_def)
  show "save_to_file s =
          show_error (''Error saving file: '' @ data_file s)
            (s\<lparr>disk_file := Some (take k (save_loop (items s) []))\<rparr>)"
    if "disk_write s = WriteFails k"
    using that by (simp add: save_to_file_def)
  show "do_action (Timeout hide_error_cb) (elapse d (show_error m s)) = None"
    if "0 \<le> d \<and> d < 3"
  proof -
    have "fire hide_error_cb (timeouts (elapse d (show_error m s))) = None"
      using that by (intro fire_not_due) (auto simp: timeouts_elapse show_error_timeouts)
    then show ?thesis by (simp add: do_action_def)
  qed
  show "error_display (show_error m' (elapse d (show_error m s)))
            = \<lparr>message = m', is_visible = True\<rparr>"
    by (rule show_error_display)
  show "filter (\<lambda>p. snd p = hide_error_cb) (timeouts (show_error m' (elapse d (show_error m s))))
            = [(3, hide_error_cb)]"
    by (rule one)
  show "case do_action (Timeout hide_error_cb) (elapse 3 (show_error m s)) of
         None \<Rightarrow> False
       | Some s' \<Rightarrow>
           error_display s' = \<lparr>message = [], is_visible = False\<rparr>
           \<and> filter (\<lambda>p. snd p = hide_error_cb) (timeouts s') = []"
  proof -
    have "fire hide_error_cb (timeouts (elapse 3 (show_error m s))) \<noteq> None"
      by (rule fire_due [of 0]) (auto simp: timeouts_elapse show_error_timeouts)
    then obtain q where q: "fire hide_error_cb (timeouts (elapse 3 (show_error m s))) = Some q"
      by auto
    then show ?thesis
      by (simp add: do_action_def run_timeout_def hide_error_effect)
  qed
qed

theorem show_error_transient_witness:
  "disk_write example_open_fails = OpenFails
   \<and> error_display (save_to_file example_open_fails)
       = \<lparr>message = ''Failed to save file: todos.txt'', is_visible = True\<rparr>
   \<and> disk_write example_write_fails = WriteFails 5
   \<and> error_display (save_to_file example_write_fails)
       = \<lparr>message = ''Error saving file: todos.txt'', is_visible = True\<rparr>
   \<and> (0::real) \<le> 1 \<and> (1::real) < 3
   \<and> do_action (Timeout hide_error_cb) (elapse 1 (show_error ''oops'' example_app)) = None
   \<and> filter (\<lambda>p. snd p = hide_error_cb)
        (timeouts (show_error ''again'' (elapse 1 (show_error ''oops'' example_app))))
       = [(3, hide_error_cb)]"
proof -
  have h1: "disk_write example_open_fails = OpenFails"
    by (simp add: example_open_fails_def)
  have h2: "disk_write example_write_fails = WriteFails 5"
    by (simp add: example_write_fails_def)
  have d1: "data_file example_open_fails = ''todos.txt''"
    by (simp add: example_open_fails_def example_app_def)
  have d2: "data_file example_write_fails = ''todos.txt''"
    by (simp add: example_write_fails_def example_app_def)
  note t1 = show_error_transient [where s = example_open_fails
      and m = "''Failed to save file: '' @ data_file example_open_fails"]
  note t2 = show_error_transient [where s = example_write_fails and k = 5
      and m = "''Error saving file: '' @ data_file
            (example_write_fails\<lparr>disk_file := Some (take 5 (save_loop (items example_write_fails) []))\<rparr>)"]
  note t3 = show_error_transient [where s = example_app and d = 1 and m = "''oops''"
      and m' = "''again''"]
  have a: "error_display (save_to_file example_open_fails)
       = \<lparr>message = ''Failed to save file: todos.txt'', is_visible = True\<rparr>"
    using t1 h1 d1 by (simp add: show_error_display)
  have b: "error_display (save_to_file example_write_fails)
       = \<lparr>message = ''Error saving file: todos.txt'', is_visible = True\<rparr>"
    using t2 h2 d2 by (simp add: show_error_display)
  have c: "do_action (Timeout hide_error_cb) (elapse 1 (show_error ''oops'' example_app)) = None
     \<and> filter (\<lambda>p. snd p = hide_error_cb)
        (timeouts (show_error ''again'' (elapse 1 (show_error ''oops'' example_app))))
       = [(3, hide_error_cb)]"
    using t3 by simp
  show ?thesis using h1 h2 a b c by simp
qed

subsection \<open>Editing and deletion\<close>

lemma start_editing_idle:
  "editing_index s < 0 \<or> editing_index s = index \<Longrightarrow>
   start_editing index s =
     (if index < 0 \<or> int (length (items s)) \<le> index then Some s
      else Some (s\<lparr>editing_index := index,
                     editing_text := text (items s ! nat index),
                     input_value := text (items s ! nat index),
                     input_visible := True\<rparr>))"
  by (subst start_editing.simps) auto

lemma finish_editing_total: "\<exists>s'. finish_editing s = Some s'"
proof -
  have "\<exists>s'. start_editing 0 (t\<lparr>editing_index := -1, editing_text := []\<rparr>) = Some s'" for t
    by (simp add: start_editing_idle)
  then show ?thesis
    by (subst finish_editing.simps) (simp add: Let_def)
qed

lemma finish_editing_nonempty:
  assumes "items s \<noteq> []" and "finish_editing s = Some s'"
  shows "items s' \<noteq> []"
proof (cases "0 \<le> editing_index s \<and> editing_index s < int (length (items s))")
  case False
  with assms show ?thesis by (simp add: finish_editing.simps)
next
  case True
  show ?thesis
    using assms True
    apply (subst (asm) finish_editing.simps)
    apply (simp add: Let_def start_editing_idle split: if_splits)
    apply auto
    done
qed

lemma items_total [simp]:
  "items (clamp_scroll_offset s) = items s"
  by (simp add: clamp_scroll_offset_def Let_def)

lemma delete_item_last:
  assumes "length (items s) = 1"
  shows "\<exists>s'. delete_item 0 s = Some s' \<and> editing_fresh_item s'"
proof -
  from assms obtain x where x: "items s = [x]"
    by (cases "items s") auto
  show ?thesis
    by (simp add: delete_item_def Let_def x vec_erase_def reset_swipe_offsets_def
        start_editing_idle editing_fresh_item_def TodoItem_def)
qed

lemma delete_item_nonempty:
  assumes "items s \<noteq> []"
  shows "\<exists>s'. delete_item index s = Some s' \<and> items s' \<noteq> []"
proof (cases "0 \<le> index \<and> index < int (length (items s))")
  case False
  with assms show ?thesis by (auto simp: delete_item_def)
next
  case True
  show ?thesis
  proof (cases "vec_erase (items s) (nat index) = []")
    case True
    with \<open>0 \<le> index \<and> index < int (length (items s))\<close> show ?thesis
      by (simp add: delete_item_def Let_def reset_swipe_offsets_def start_editing_idle)
  next
    case False
    with \<open>0 \<le> index \<and> index < int (length (items s))\<close> show ?thesis
      by (simp add: delete_item_def Let_def reset_swipe_offsets_def)
  qed
qed

lemma finish_editing_last:
  assumes "length (items s) = 1" and "editing_index s = 0"
    and "(if input_visible s then input_value s else editing_text s) = []"
  shows "\<exists>s'. finish_editing s = Some s' \<and> editing_fresh_item s'"
proof -
  from assms(1) obtain x where x: "items s = [x]"
    by (cases "items s") auto
  show ?thesis
    using assms(2,3)
    by (subst finish_editing.simps)
       (auto simp: Let_def x vec_erase_def start_editing_idle editing_fresh_item_def
          TodoItem_def split: if_splits)
qed

lemma finish_editing_keeps_nonempty:
  assumes "items s \<noteq> []"
  shows "\<exists>s'. finish_editing s = Some s' \<and> items s' \<noteq> []"
  using assms finish_editing_total [of s] finish_editing_nonempty [of s] by blast

lemma escape_last:
  assumes "length (items s) = 1" and "event_key e = FL_Escape" and "editing_index s = 0"
    and "input_visible s" and "input_value s = []"
  shows "\<exists>s'. handle FL_KEYBOARD e s = Some s' \<and> editing_fresh_item s'"
proof -
  from assms(1) obtain x where x: "items s = [x]"
    by (cases "items s") auto
  show ?thesis
    using assms(2-)
    by (simp add: handle_def handle_keyboard_def Let_def x vec_erase_def start_editing_idle
        editing_fresh_item_def TodoItem_def)
qed

lemma escape_nonempty:
  assumes "items s \<noteq> []" and "event_key e = FL_Escape" and "0 \<le> editing_index s"
    and "input_visible s"
  shows "\<exists>s'. handle FL_KEYBOARD e s = Some s' \<and> items s' \<noteq> []"
  using assms
  by (auto simp: handle_def handle_keyboard_def Let_def start_editing_idle)

text \<open>
  C9. On a list that is not empty, \<^verbatim>\<open>delete_item\<close>, \<^verbatim>\<open>finish_editing\<close> and the Escape key
  during editing all return, with a list that is not empty. When they remove the only
  item (\<^verbatim>\<open>delete_item\<close> at index 0; \<^verbatim>\<open>finish_editing\<close> or Escape with the item under
  edit and an empty text), the list afterwards is one new item with an empty text, and
  that item is being edited: \<^verbatim>\<open>editing_index\<close> is 0 and the input widget is shown, empty.
\<close>

theorem list_never_left_empty:
  "(items s \<noteq> [] \<longrightarrow> (\<exists>s'. delete_item index s = Some s' \<and> items s' \<noteq> []))
   \<and> (length (items s) = 1 \<longrightarrow> (\<exists>s'. delete_item 0 s = Some s' \<and> editing_fresh_item s'))
   \<and> (items s \<noteq> [] \<longrightarrow> (\<exists>s'. finish_editing s = Some s' \<and> items s' \<noteq> []))
   \<and> (length (items s) = 1 \<and> editing_index s = 0
        \<and> (if input_visible s then input_value s else editing_text s) = []
      \<longrightarrow> (\<exists>s'. finish_editing s = Some s' \<and> editing_fresh_item s'))
   \<and> (items s \<noteq> [] \<and> event_key e = FL_Escape \<and> 0 \<le> editing_index s \<and> input_visible s
      \<longrightarrow> (\<exists>s'. handle FL_KEYBOARD e s = Some s' \<and> items s' \<noteq> []))
   \<and> (length (items s) = 1 \<and> event_key e = FL_Escape \<and> editing_index s = 0
        \<and> input_visible s \<and> input_value s = []
      \<longrightarrow> (\<exists>s'. handle FL_KEYBOARD e s = Some s' \<and> editing_fresh_item s'))"
  using delete_item_nonempty [of s index] delete_item_last [of s]
    finish_editing_keeps_nonempty [of s] finish_editing_last [of s]
    escape_nonempty [of s e] escape_last [of s e]
  by blast

theorem list_never_left_empty_witness:
  "length (items one_item) = 1 \<and> editing_index one_item = 0 \<and> input_visible one_item
   \<and> input_value one_item = [] \<and> event_key escape_key = FL_Escape
   \<and> editing_fresh_item (the (delete_item 0 one_item))
   \<and> editing_fresh_item (the (finish_editing one_item))
   \<and> editing_fresh_item (the (handle FL_KEYBOARD escape_key one_item))"
proof -
  have h: "length (items one_item) = 1" "editing_index one_item = 0" "input_visible one_item"
    "input_value one_item = []" "event_key escape_key = FL_Escape"
    by (simp_all add: one_item_def escape_key_def)
  note t = list_never_left_empty [where s = one_item and e = escape_key]
  from t h have "\<exists>s'. delete_item 0 one_item = Some s' \<and> editing_fresh_item s'"
    by blast
  moreover from t h have "\<exists>s'. finish_editing one_item = Some s' \<and> editing_fresh_item s'"
    by simp
  moreover from t h
  have "\<exists>s'. handle FL_KEYBOARD escape_key one_item = Some s' \<and> editing_fresh_item s'"
    by simp
  ultimately show ?thesis using h by auto
qed

text \<open>
  The sibling paths do save. On a disk that takes the write, \<^verbatim>\<open>finish_editing\<close> with a text
  that is not empty leaves the file equal to the saved list, and so does Escape when it
  removes an item with an empty text from a longer list.
\<close>

lemma finish_editing_text_saved:
  assumes "disk_write s = WriteOk" and "0 \<le> editing_index s"
    and "editing_index s < int (length (items s))"
    and "(if input_visible s then input_value s else editing_text s) \<noteq> []"
    and "finish_editing s = Some s'"
  shows "disk_file s' = Some (save_loop (items s') [])"
proof -
  from assms(5) assms(2,3,4)
  have "s' = save_to_file
      (s\<lparr>editing_text := (if input_visible s then input_value s else editing_text s),
          input_visible := False,
          items := (items s)[nat (editing_index s) :=
            (items s ! nat (editing_index s))
              \<lparr>text := (if input_visible s then input_value s else editing_text s)\<rparr>],
          editing_index := -1, editing_text := []\<rparr>)"
    by (subst (asm) finish_editing.simps) (auto simp: Let_def split: if_splits)
  then show ?thesis
    using assms(1) by (simp add: save_to_file_def)
qed

lemma escape_removal_saved:
  assumes "disk_write s = WriteOk" and "event_key e = FL_Escape" and "0 \<le> editing_index s"
    and "input_visible s" and "1 < length (items s)"
    and "handle FL_KEYBOARD e s = Some s'"
  shows "disk_file s' = Some (save_loop (items s') [])"
proof -
  have "vec_erase (items s) (nat (editing_index s)) \<noteq> []"
    if "editing_index s < int (length (items s))"
  proof -
    from that assms(3) have "nat (editing_index s) < length (items s)"
      by (simp add: nat_less_iff)
    from length_vec_erase [OF this] assms(5) show ?thesis by auto
  qed
  then show ?thesis
    using assms
    by (auto simp: handle_def handle_keyboard_def Let_def save_to_file_def split: if_splits)
qed

text \<open>
  C4. The claim that every mutation of the list is followed by a save fails in
  \<^verbatim>\<open>finish_editing\<close>: its branch for an empty text erases the item and does not call
  \<^verbatim>\<open>save_to_file\<close>. On first run, pulling down adds an empty item, which \<^verbatim>\<open>add_item\<close> saves;
  a press on another item then makes \<^verbatim>\<open>FL_PUSH\<close> call \<^verbatim>\<open>finish_editing\<close>, which removes the
  empty item from the list, and when the handler returns the file still holds the line of
  that item in front of the lines of the six items that are left.
\<close>

theorem finish_editing_empty_text_unsaved:
  "run pull_add_then_click first_run \<noteq> None
   \<and> map text (items (the (run pull_add_then_click first_run))) = sample_texts
   \<and> disk_file (the (run pull_add_then_click first_run))
       = Some (''0|0|'' @ [newline] @ save_loop (items (the (run pull_add_then_click first_run))) [])
   \<and> disk_file (the (run pull_add_then_click first_run))
       \<noteq> Some (save_loop (items (the (run pull_add_then_click first_run))) [])"
proof -
  have e: "case run pull_add_then_click first_run of
             None \<Rightarrow> False
           | Some s \<Rightarrow> map text (items s) = sample_texts
               \<and> disk_file s = Some (''0|0|'' @ [newline] @ save_loop (items s) [])"
    by code_simp
  then show ?thesis by (auto split: option.splits)
qed

subsection \<open>Gesture modes\<close>

text \<open>
  Frame lemmas first: which operations leave \<open>reorder_view\<close>, and so the invariant
  \<open>click_or_reorder\<close>, as it is.
\<close>

lemma pending_cb_update [simp]:
  "pending_cb cb (s\<lparr>items := x1\<rparr>) = pending_cb cb s"
  "pending_cb cb (s\<lparr>selected_index := x2\<rparr>) = pending_cb cb s"
  "pending_cb cb (s\<lparr>drag_start_y := x3\<rparr>) = pending_cb cb s"
  "pending_cb cb (s\<lparr>drag_start_x := x4\<rparr>) = pending_cb cb s"
  "pending_cb cb (s\<lparr>is_dragging := x5\<rparr>) = pending_cb cb s"
  "pending_cb cb (s\<lparr>is_swiping := x6\<rparr>) = pending_cb cb s"
  "pending_cb cb (s\<lparr>is_pulling_down := x7\<rparr>) = pending_cb cb s"
  "pending_cb cb (s\<lparr>pull_down_offset := x8\<rparr>) = pending_cb cb s"
  "pending_cb cb (s\<lparr>drag_offset := x9\<rparr>) = pending_cb cb s"
  "pending_cb cb (s\<lparr>data_file := y1\<rparr>) = pending_cb cb s"
  "pending_cb cb (s\<lparr>editing_index := y2\<rparr>) = pending_cb cb s"
  "pending_cb cb (s\<lparr>editing_text := y3\<rparr>) = pending_cb cb s"
  "pending_cb cb (s\<lparr>pending_click_index := y4\<rparr>) = pending_cb cb s"
  "pending_cb cb (s\<lparr>can_reorder := y5\<rparr>) = pending_cb cb s"
  "pending_cb cb (s\<lparr>scroll_offset := y6\<rparr>) = pending_cb cb s"
  "pending_cb cb (s\<lparr>error_display := y7\<rparr>) = pending_cb cb s"
  "pending_cb cb (s\<lparr>input_visible := y8\<rparr>) = pending_cb cb s"
  "pending_cb cb (s\<lparr>input_value := y9\<rparr>) = pending_cb cb s"
  "pending_cb cb (s\<lparr>win_w := z1\<rparr>) = pending_cb cb s"
  "pending_cb cb (s\<lparr>win_h := z2\<rparr>) = pending_cb cb s"
  "pending_cb cb (s\<lparr>disk_file := z3\<rparr>) = pending_cb cb s"
  "pending_cb cb (s\<lparr>disk_write := z4\<rparr>) = pending_cb cb s"
  "pending_cb cb (s\<lparr>disk_read_error := z5\<rparr>) = pending_cb cb s"
  by (simp_all add: pending_cb_def)

lemma pending_cb_add: "pending_cb cb (Fl_add_timeout t cb' s) \<longleftrightarrow> cb = cb' \<or> pending_cb cb s"
  by (auto simp: pending_cb_def Fl_add_timeout_def)

lemma pending_cb_remove:
  "pending_cb cb (Fl_remove_timeout cb' s) \<longleftrightarrow> cb \<noteq> cb' \<and> pending_cb cb s"
  by (auto simp: pending_cb_def Fl_remove_timeout_def)

lemma Fl_timeout_frame [simp]:
  "can_reorder (Fl_add_timeout t cb s) = can_reorder s"
  "pending_click_index (Fl_add_timeout t cb s) = pending_click_index s"
  "can_reorder (Fl_remove_timeout cb s) = can_reorder s"
  "pending_click_index (Fl_remove_timeout cb s) = pending_click_index s"
  by (simp_all add: Fl_add_timeout_def Fl_remove_timeout_def)

lemma pending_cb_show_error [simp]:
  "cb \<noteq> hide_error_cb \<Longrightarrow> pending_cb cb (show_error m s) = pending_cb cb s"
  by (simp add: show_error_def Let_def pending_cb_add pending_cb_remove)

lemma pending_cb_save_to_file [simp]:
  "cb \<noteq> hide_error_cb \<Longrightarrow> pending_cb cb (save_to_file s) = pending_cb cb s"
  by (simp add: save_to_file_def split: write_fault.splits)

lemma view_update [simp]:
  "reorder_view (s\<lparr>items := x0\<rparr>) = reorder_view s"
  "reorder_view (s\<lparr>selected_index := x1\<rparr>) = reorder_view s"
  "reorder_view (s\<lparr>drag_start_y := x2\<rparr>) = reorder_view s"
  "reorder_view (s\<lparr>drag_start_x := x3\<rparr>) = reorder_view s"
  "reorder_view (s\<lparr>is_dragging := x4\<rparr>) = reorder_view s"
  "reorder_view (s\<lparr>is_swiping := x5\<rparr>) = reorder_view s"
  "reorder_view (s\<lparr>is_pulling_down := x6\<rparr>) = reorder_view s"
  "reorder_view (s\<lparr>pull_down_offset := x7\<rparr>) = reorder_view s"
  "reorder_view (s\<lparr>drag_offset := x8\<rparr>) = reorder_view s"
  "reorder_view (s\<lparr>data_file := x9\<rparr>) = reorder_view s"
  "reorder_view (s\<lparr>editing_index := x10\<rparr>) = reorder_view s"
  "reorder_view (s\<lparr>editing_text := x11\<rparr>) = reorder_view s"
  "reorder_view (s\<lparr>scroll_offset := x12\<rparr>) = reorder_view s"
  "reorder_view (s\<lparr>error_display := x13\<rparr>) = reorder_view s"
  "reorder_view (s\<lparr>input_visible := x14\<rparr>) = reorder_view s"
  "reorder_view (s\<lparr>input_value := x15\<rparr>) = reorder_view s"
  "reorder_view (s\<lparr>win_w := x16\<rparr>) = reorder_view s"
  "reorder_view (s\<lparr>win_h := x17\<rparr>) = reorder_view s"
  "reorder_view (s\<lparr>disk_file := x18\<rparr>) = reorder_view s"
  "reorder_view (s\<lparr>disk_write := x19\<rparr>) = reorder_view s"
  "reorder_view (s\<lparr>disk_read_error := x20\<rparr>) = reorder_view s"
  by (simp_all add: reorder_view_def)

lemma view_save_to_file [simp]: "reorder_view (save_to_file s) = reorder_view s"
  by (simp add: reorder_view_def)

lemma view_show_error [simp]: "reorder_view (show_error m s) = reorder_view s"
  by (simp add: reorder_view_def)

lemma view_hide_error [simp]: "reorder_view (hide_error s) = reorder_view s"
  by (simp add: reorder_view_def hide_error_def pending_cb_remove)

lemma view_clamp [simp]: "reorder_view (clamp_scroll_offset s) = reorder_view s"
  by (simp add: clamp_scroll_offset_def Let_def)

lemma view_reset_swipe [simp]: "reorder_view (reset_swipe_offsets s) = reorder_view s"
  by (simp add: reset_swipe_offsets_def)

lemma view_toggle [simp]: "reorder_view (toggle_complete i s) = reorder_view s"
  by (simp add: toggle_complete_def)

lemma view_reorder_items [simp]: "reorder_view (reorder_items i j s) = reorder_view s"
  by (simp add: reorder_items_def Let_def)

lemma view_draw_item [simp]: "reorder_view (draw_item i y s) = reorder_view s"
  by (simp add: draw_item_def)

lemma view_finish_editing:
  "finish_editing s = Some s' \<Longrightarrow> reorder_view s' = reorder_view s"
  by (subst (asm) finish_editing.simps)
     (auto simp: Let_def start_editing_idle split: if_splits)

lemma view_start_editing:
  "start_editing index s = Some s' \<Longrightarrow> reorder_view s' = reorder_view s"
  by (subst (asm) start_editing.simps)
     (auto split: if_splits option.splits dest!: view_finish_editing)

lemma view_delete_item:
  "delete_item index s = Some s' \<Longrightarrow> reorder_view s' = reorder_view s"
  by (auto simp: delete_item_def Let_def bind_eq_Some_conv
      split: if_splits dest!: view_start_editing)

lemma view_add_item:
  "add_item t s = Some s' \<Longrightarrow> reorder_view s' = reorder_view s"
  by (auto simp: add_item_def Let_def bind_eq_Some_conv
      split: if_splits dest!: view_start_editing view_finish_editing)

lemma view_set_swipe_offset:
  "set_swipe_offset i v s = Some s' \<Longrightarrow> reorder_view s' = reorder_view s"
  by (auto simp: set_swipe_offset_def split: if_splits)

lemma view_changes [simp]:
  "reorder_view (s\<lparr>can_reorder := b\<rparr>) = (b, snd (reorder_view s))"
  "reorder_view (s\<lparr>pending_click_index := p\<rparr>)
     = (fst (reorder_view s), p, snd (snd (reorder_view s)))"
  "reorder_view (Fl_add_timeout t cb s)
     = (fst (reorder_view s), fst (snd (reorder_view s)),
        cb = long_press_timeout_cb \<or> snd (snd (reorder_view s)))"
  "reorder_view (Fl_remove_timeout cb s)
     = (fst (reorder_view s), fst (snd (reorder_view s)),
        cb \<noteq> long_press_timeout_cb \<and> snd (snd (reorder_view s)))"
  by (auto simp: reorder_view_def pending_cb_add pending_cb_remove)

lemma click_or_reorder_view:
  "click_or_reorder s \<longleftrightarrow>
     (0 \<le> fst (snd (reorder_view s)) \<longrightarrow>
        \<not> fst (reorder_view s) \<and> \<not> snd (snd (reorder_view s)))"
  by (simp add: click_or_reorder_def reorder_view_def)

lemma inv_handle_push:
  "handle_push e s = Some s' \<Longrightarrow> click_or_reorder s \<Longrightarrow> click_or_reorder s'"
  by (auto simp: handle_push_def Let_def bind_eq_Some_conv click_or_reorder_view
      split: if_splits dest!: view_finish_editing view_delete_item)

lemma inv_drag_tail:
  "drag_tail dx dy my s = Some s' \<Longrightarrow> reorder_view s' = reorder_view s"
  by (auto simp: drag_tail_def Let_def split: if_splits dest!: view_set_swipe_offset)

lemma inv_handle_drag:
  "handle_drag e s = Some s' \<Longrightarrow> click_or_reorder s \<Longrightarrow> click_or_reorder s'"
  by (auto simp: handle_drag_def Let_def bind_eq_Some_conv click_or_reorder_view
      split: if_splits dest!: inv_drag_tail view_set_swipe_offset)

lemma view_release_swipe:
  "release_swipe s = Some s' \<Longrightarrow> reorder_view s' = reorder_view s"
  by (auto simp: release_swipe_def Let_def bind_eq_Some_conv
      split: if_splits dest!: view_set_swipe_offset view_delete_item)

lemma inv_handle_release:
  "handle_release e s = Some s' \<Longrightarrow> click_or_reorder s'"
  by (auto simp: handle_release_def Let_def bind_eq_Some_conv click_or_reorder_view
      split: if_splits dest!: view_release_swipe view_add_item)

lemma inv_handle_mousewheel:
  "handle_mousewheel e s = Some s' \<Longrightarrow> click_or_reorder s \<Longrightarrow> click_or_reorder s'"
  by (auto simp: handle_mousewheel_def Let_def click_or_reorder_view split: if_splits)

lemma inv_handle_keyboard:
  "handle_keyboard e s = Some s' \<Longrightarrow> click_or_reorder s \<Longrightarrow> click_or_reorder s'"
  by (auto simp: handle_keyboard_def Let_def bind_eq_Some_conv click_or_reorder_view
      split: if_splits dest!: view_start_editing view_delete_item)

lemma inv_handle:
  "handle ev e s = Some s' \<Longrightarrow> click_or_reorder s \<Longrightarrow> click_or_reorder s'"
  by (cases ev)
     (auto simp: handle_def
       dest: inv_handle_push inv_handle_drag inv_handle_release inv_handle_mousewheel
         inv_handle_keyboard)

lemma view_draw_loop:
  "reorder_view (fst (draw_loop sorted_indices visual_pos y s calls)) = reorder_view s"
proof (induction sorted_indices visual_pos y s calls rule: draw_loop.induct)
  case (1 sorted_indices visual_pos y s calls)
  show ?case
    by (subst draw_loop.simps) (use 1 in \<open>auto simp: Let_def\<close>)
qed

lemma view_draw: "reorder_view (fst (draw s)) = reorder_view s"
proof -
  obtain s1 calls where l: "draw_loop (get_sorted_indices s) 0 0 s [] = (s1, calls)"
    by (cases "draw_loop (get_sorted_indices s) 0 0 s []")
  then have "reorder_view s1 = reorder_view s"
    using view_draw_loop [of "get_sorted_indices s" 0 0 s "[]"] by simp
  then show ?thesis
    by (simp add: draw_def Let_def l)
qed

lemma view_elapse: "reorder_view (elapse d s) = reorder_view s"
  by (simp add: reorder_view_def pending_cb_def elapse_def image_image)

lemma fire_subset: "fire cb q = Some q' \<Longrightarrow> set q' \<subseteq> set q \<and> cb \<in> snd ` set q"
  by (induction q arbitrary: q') (auto split: if_splits option.splits)

lemma view_handle_single_click:
  "handle_single_click i s = Some s' \<Longrightarrow> click_or_reorder s \<Longrightarrow> click_or_reorder s'"
  by (auto simp: handle_single_click_def bind_eq_Some_conv click_or_reorder_view
      split: if_splits dest!: view_start_editing)

lemma inv_timeout:
  assumes "fire cb (timeouts s) = Some q" and "run_timeout cb (s\<lparr>timeouts := q\<rparr>) = Some s'"
    and "click_or_reorder s"
  shows "click_or_reorder s'"
proof -
  from fire_subset [OF assms(1)] have sub: "set q \<subseteq> set (timeouts s)"
    and was: "pending_cb cb s"
    by (simp_all add: pending_cb_def)
  let ?s1 = "s\<lparr>timeouts := q\<rparr>"
  have p1: "pending_cb long_press_timeout_cb ?s1 \<Longrightarrow> pending_cb long_press_timeout_cb s"
    using sub by (auto simp: pending_cb_def)
  have inv1: "click_or_reorder ?s1"
    using assms(3) p1 by (auto simp: click_or_reorder_def)
  show ?thesis
  proof (cases cb)
    case hide_error_cb
    with assms(2) inv1 show ?thesis
      by (auto simp: run_timeout_def click_or_reorder_view)
  next
    case long_press_timeout_cb
    with was assms(3) have "pending_click_index s < 0"
      by (auto simp: click_or_reorder_def)
    with long_press_timeout_cb assms(2) show ?thesis
      by (auto simp: run_timeout_def enable_reorder_def click_or_reorder_def split: if_splits)
  next
    case click_timeout_cb
    with assms(2) inv1 show ?thesis
      by (auto simp: run_timeout_def split: if_splits dest: view_handle_single_click)
  qed
qed

lemma inv_input:
  "input_callback k (s\<lparr>input_value := v\<rparr>) = Some s' \<Longrightarrow> click_or_reorder s \<Longrightarrow>
   click_or_reorder s'"
  by (auto simp: input_callback_def click_or_reorder_view split: if_splits
      dest!: view_finish_editing)

lemma inv_do_action:
  "do_action a s = Some s' \<Longrightarrow> click_or_reorder s \<Longrightarrow> click_or_reorder s'"
proof (cases a)
  case (Handle ev e)
  then show "do_action a s = Some s' \<Longrightarrow> click_or_reorder s \<Longrightarrow> click_or_reorder s'"
    by (auto simp: do_action_def dest: inv_handle)
next
  case (Elapse d)
  then show "do_action a s = Some s' \<Longrightarrow> click_or_reorder s \<Longrightarrow> click_or_reorder s'"
    by (auto simp: do_action_def click_or_reorder_view view_elapse split: if_splits)
next
  case (Timeout cb)
  then show "do_action a s = Some s' \<Longrightarrow> click_or_reorder s \<Longrightarrow> click_or_reorder s'"
    by (auto simp: do_action_def split: option.splits dest: inv_timeout)
next
  case (Input v k)
  then show "do_action a s = Some s' \<Longrightarrow> click_or_reorder s \<Longrightarrow> click_or_reorder s'"
    by (auto simp: do_action_def split: if_splits dest: inv_input)
next
  case Draw
  then show "do_action a s = Some s' \<Longrightarrow> click_or_reorder s \<Longrightarrow> click_or_reorder s'"
    by (auto simp: do_action_def click_or_reorder_view view_draw)
qed

lemma inv_run:
  "run acts s = Some s' \<Longrightarrow> click_or_reorder s \<Longrightarrow> click_or_reorder s'"
  by (induction acts arbitrary: s) (auto split: option.splits dest: inv_do_action)

lemma view_load_from_file: "reorder_view (snd (load_from_file s)) = reorder_view s"
  by (simp add: load_from_file_def split: option.splits prod.splits)

lemma inv_new: "click_or_reorder (ClearApp_new W H path y0 x0 file wfault rfault)"
proof -
  let ?s0 = "ClearApp_init W H path y0 x0 file wfault rfault"
  have v0: "reorder_view ?s0 = (False, -1, False)"
    by (simp add: reorder_view_def pending_cb_def ClearApp_init_def)
  have "reorder_view (ClearApp_new W H path y0 x0 file wfault rfault) = reorder_view ?s0"
    using view_load_from_file [of ?s0]
    by (auto simp: ClearApp_new_def add_sample_items_def split: prod.splits)
  then show ?thesis by (simp add: click_or_reorder_view v0)
qed

lemma reachable_inv: "reachable s \<Longrightarrow> click_or_reorder s"
  by (auto simp: reachable_def dest: inv_run [OF _ inv_new])

lemma pulling_total [simp]:
  "is_pulling_down (clamp_scroll_offset s) = is_pulling_down s"
  "is_pulling_down (reset_swipe_offsets s) = is_pulling_down s"
  "is_pulling_down (toggle_complete i s) = is_pulling_down s"
  by (simp_all add: clamp_scroll_offset_def reset_swipe_offsets_def toggle_complete_def Let_def)

lemma pulling_finish_editing:
  "finish_editing s = Some s' \<Longrightarrow> is_pulling_down s' = is_pulling_down s"
  by (subst (asm) finish_editing.simps)
     (auto simp: Let_def start_editing_idle split: if_splits)

lemma pulling_start_editing:
  "start_editing index s = Some s' \<Longrightarrow> is_pulling_down s' = is_pulling_down s"
  by (subst (asm) start_editing.simps)
     (auto split: if_splits option.splits dest!: pulling_finish_editing)

lemma pulling_delete_item:
  "delete_item index s = Some s' \<Longrightarrow> is_pulling_down s' = is_pulling_down s"
  by (auto simp: delete_item_def Let_def bind_eq_Some_conv
      split: if_splits dest!: pulling_start_editing)

lemma pulling_add_item:
  "add_item t s = Some s' \<Longrightarrow> \<not> is_pulling_down s'"
  by (auto simp: add_item_def Let_def bind_eq_Some_conv
      split: if_splits dest!: pulling_start_editing pulling_finish_editing)

lemma pulling_set_swipe_offset:
  "set_swipe_offset i v s = Some s' \<Longrightarrow> is_pulling_down s' = is_pulling_down s"
  by (auto simp: set_swipe_offset_def split: if_splits)

lemma pulling_release_swipe:
  "release_swipe s = Some s' \<Longrightarrow> is_pulling_down s' = is_pulling_down s"
  by (auto simp: release_swipe_def Let_def bind_eq_Some_conv
      split: if_splits dest!: pulling_set_swipe_offset pulling_delete_item)

lemma release_ends_gesture:
  "handle_release e s = Some s' \<Longrightarrow>
   \<not> is_swiping s' \<and> \<not> can_reorder s' \<and> \<not> is_pulling_down s' \<and> \<not> is_dragging s'"
  by (auto simp: handle_release_def Let_def bind_eq_Some_conv Fl_remove_timeout_def
      Fl_add_timeout_def
      split: if_splits dest!: pulling_release_swipe pulling_add_item)

text \<open>
  C8, as stated, fails. On first run, a press on the first item, the long-press timeout
  after 0.3 seconds and a drag of 20 pixels to the right lead to a state in which
  \<^verbatim>\<open>is_swiping\<close> and \<^verbatim>\<open>can_reorder\<close> are both set, so two of the four modes are active. The
  first branch of \<^verbatim>\<open>FL_RELEASE\<close> handles just this combination.
\<close>

theorem modes_not_exclusive:
  "run long_press_then_swipe first_run \<noteq> None
   \<and> reachable (the (run long_press_then_swipe first_run))
   \<and> is_swiping (the (run long_press_then_swipe first_run))
   \<and> can_reorder (the (run long_press_then_swipe first_run))
   \<and> \<not> modes_exclusive (the (run long_press_then_swipe first_run))"
proof -
  have e: "case run long_press_then_swipe first_run of
             None \<Rightarrow> False | Some s \<Rightarrow> is_swiping s \<and> can_reorder s"
    by code_simp
  then obtain s where s: "run long_press_then_swipe first_run = Some s"
    and m: "is_swiping s" "can_reorder s"
    by (auto split: option.splits)
  have "reachable s"
    unfolding reachable_def using s unfolding first_run_def by blast
  moreover have "\<not> modes_exclusive s"
    using m by (simp add: modes_exclusive_def active_modes_def)
  ultimately show ?thesis using s m by simp
qed

text \<open>
  The other pairs of modes, except reorder-drag with a pending click, are reached
  together too: a pending click with pull-to-add and with swipe (a drag before the click
  timeout), a long press with a press above the list, and a swipe with such a press.
\<close>

lemma other_mode_pairs:
  "(case run [Handle FL_PUSH (left_at 100 30), Handle FL_RELEASE (left_at 100 30),
              Handle FL_DRAG (left_at 100 55)] first_run of
      None \<Rightarrow> False | Some s \<Rightarrow> is_pulling_down s \<and> 0 \<le> pending_click_index s)"
  "(case run [Handle FL_PUSH (left_at 100 30), Handle FL_RELEASE (left_at 100 30),
              Handle FL_DRAG (left_at 120 30)] first_run of
      None \<Rightarrow> False | Some s \<Rightarrow> is_swiping s \<and> 0 \<le> pending_click_index s)"
  "(case run [Handle FL_PUSH (left_at 100 30), Elapse 0.3, Timeout long_press_timeout_cb,
              Handle FL_PUSH (left_at 100 (-5))] first_run of
      None \<Rightarrow> False | Some s \<Rightarrow> can_reorder s \<and> is_pulling_down s)"
  "(case run [Handle FL_PUSH (left_at 100 30), Handle FL_DRAG (left_at 120 30),
              Handle FL_PUSH (left_at 100 (-5))] first_run of
      None \<Rightarrow> False | Some s \<Rightarrow> is_swiping s \<and> is_pulling_down s)"
  by code_simp+

text \<open>
  C8, amended. In every state that a run of the event loop reaches from a constructed
  window, reorder-drag and a pending click are not active together. And every
  \<^verbatim>\<open>FL_RELEASE\<close> that returns leaves swipe, reorder-drag and pull-to-add inactive, so at
  most one mode, the pending click, is active after it.
\<close>

theorem reorder_excludes_pending_click:
  "(reachable s \<longrightarrow> \<not> (can_reorder s \<and> 0 \<le> pending_click_index s))
   \<and> (handle FL_RELEASE e s = Some s' \<longrightarrow>
        \<not> is_swiping s' \<and> \<not> can_reorder s' \<and> \<not> is_pulling_down s' \<and> modes_exclusive s')"
proof (intro conjI impI)
  assume "reachable s"
  then have "click_or_reorder s" by (rule reachable_inv)
  then show "\<not> (can_reorder s \<and> 0 \<le> pending_click_index s)"
    by (auto simp: click_or_reorder_def)
next
  assume "handle FL_RELEASE e s = Some s'"
  then have r: "\<not> is_swiping s' \<and> \<not> can_reorder s' \<and> \<not> is_pulling_down s'"
    using release_ends_gesture [of e s s'] by (simp add: handle_def)
  then show "\<not> is_swiping s'" "\<not> can_reorder s'" "\<not> is_pulling_down s'" "modes_exclusive s'"
    by (simp_all add: modes_exclusive_def active_modes_def)
qed

theorem reorder_excludes_pending_click_witness:
  "reachable (the (run single_click first_run))
   \<and> pending_click_index (the (run single_click first_run)) = 0
   \<and> \<not> can_reorder (the (run single_click first_run))
   \<and> handle FL_RELEASE (left_at 100 30) (the (run [Handle FL_PUSH (left_at 100 30)] first_run))
       = Some (the (run single_click first_run))
   \<and> modes_exclusive (the (run single_click first_run))"
proof -
  have e: "case run single_click first_run of
             None \<Rightarrow> False | Some s \<Rightarrow> pending_click_index s = 0"
    by code_simp
  then obtain s where s: "run single_click first_run = Some s" and p: "pending_click_index s = 0"
    by (auto split: option.splits)
  have e1: "run [Handle FL_PUSH (left_at 100 30)] first_run \<noteq> None"
    by code_simp
  then obtain s1 where s1: "run [Handle FL_PUSH (left_at 100 30)] first_run = Some s1"
    by auto
  have rel: "handle FL_RELEASE (left_at 100 30) s1 = Some s"
    using s s1 by (simp add: single_click_def do_action_def split: option.splits)
  have r: "reachable s"
    unfolding reachable_def using s unfolding first_run_def by blast
  from reorder_excludes_pending_click [where s = s] r p
  have "\<not> can_reorder s"
    by simp
  moreover from reorder_excludes_pending_click [where s = s1 and e = "left_at 100 30" and s' = s] rel
  have "modes_exclusive s"
    by simp
  ultimately have "\<not> can_reorder s" and "modes_exclusive s" .
  with s s1 p r rel show ?thesis by simp
qed

end
